theory Spec2Isabelle
  imports Complex_Main "HOL-Library.Log_Nat" "HOL-Library.Char_ord" "HOL-Library.List_Lexorder"
begin

section \<open>JavaScript values as the survey pipeline stores them\<close>

text \<open>
  Strings are lists of code units; the development uses the 8-bit \<open>char\<close> of HOL, so a
  code unit above 255 is outside the model. A \<open>Date\<close> object holds a time value in
  milliseconds or \<open>NaN\<close> (an invalid date).
\<close>

datatype jsdate = Instant int | InvalidDate

text \<open>
  The object the analyzer returns (the result of \<open>analyzeSurveyResponse\<close>): either
  the parsed JSON of the model's answer, whose members follow \<open>analysisSchema\<close>, or
  \<open>{ error: message }\<close>. Every member may be missing.
\<close>

record analysis =
  aerror :: "string option"
  sentiment :: "string option"
  sentiment_score :: "rat option"
  intent :: "string option"
  emotions :: "string list option"
  topics :: "string list option"
  explanation :: "string option"
  confidence :: "rat option"
  redacted_excerpt :: "string option"

datatype jsval =
    Undefined
  | Num rat
  | Str string
  | Arr "string list"
  | DateV jsdate
  | AnalysisV analysis

text \<open>
  \<open>SurveyResponse\<close> and \<open>AnalysisResult\<close> are objects with an index signature
  (\<open>[key: string]: any\<close>): \<open>rowId\<close>, \<open>date\<close>, \<open>analysis\<close> and \<open>error\<close> live in the same
  key space as the CSV header names.
\<close>

type_synonym jsobj = "string \<rightharpoonup> jsval"

definition getProp :: "jsobj \<Rightarrow> string \<Rightarrow> jsval" where
  "getProp ob k = (case ob k of None \<Rightarrow> Undefined | Some v \<Rightarrow> v)"

fun truthy :: "jsval \<Rightarrow> bool" where
  "truthy Undefined = False"
| "truthy (Num n) = (n \<noteq> 0)"
| "truthy (Str s) = (s \<noteq> [])"
| "truthy (Arr xs) = True"
| "truthy (DateV d) = True"
| "truthy (AnalysisV a) = True"

text \<open>
  What the language runtime and the environment supply: \<open>String(number)\<close>,
  \<open>String(date)\<close>, the conversion of a string to a number (\<open>None\<close> is \<open>NaN\<close>),
  \<open>new Date(string)\<close>, and the conversion of a local time to UTC.
\<close>

record runtime =
  numberToString :: "rat \<Rightarrow> string"
  dateToString :: "jsdate \<Rightarrow> string"
  toNumber :: "string \<Rightarrow> rat option"
  dateParse :: "string \<Rightarrow> jsdate"
  utc :: "int \<Rightarrow> int"

definition rt0 :: runtime where
  "rt0 = \<lparr> numberToString = (\<lambda>_. ''0''), dateToString = (\<lambda>_. ''Invalid Date''),
           toNumber = (\<lambda>_. None), dateParse = (\<lambda>_. InvalidDate), utc = (\<lambda>t. t) \<rparr>"

section \<open>CsvCodec\<close>

definition dquote :: char where "dquote = CHR 0x22"
definition comma :: char where "comma = CHR 0x2C"
definition lf :: char where "lf = CHR 0x0A"
definition cr :: char where "cr = CHR 0x0D"
definition pipe :: char where "pipe = CHR 0x7C"

text \<open>White space of \<open>String.prototype.trim\<close> among the code units below 256.\<close>

definition is_ws :: "char \<Rightarrow> bool" where
  "is_ws c = (c \<in> {CHR 0x09, CHR 0x0A, CHR 0x0B, CHR 0x0C, CHR 0x0D, CHR 0x20, CHR 0xA0})"

definition trim :: "string \<Rightarrow> string" where
  "trim s = rev (dropWhile is_ws (rev (dropWhile is_ws s)))"

text \<open>\<open>text.split(/\r\n|\n/)\<close>\<close>

fun splitLines :: "string \<Rightarrow> string list" where
  "splitLines [] = [[]]"
| "splitLines [c] = (if c = lf then [[], []] else [[c]])"
| "splitLines (c # d # cs) =
     (if c = cr \<and> d = lf then [] # splitLines cs
      else if c = lf then [] # splitLines (d # cs)
      else (case splitLines (d # cs) of [] \<Rightarrow> [[c]] | l # ls \<Rightarrow> (c # l) # ls))"

text \<open>
  The inner \<open>for\<close> loop of \<open>parseCsv\<close> over one line: the rest of the line, \<open>currentField\<close>,
  \<open>inQuotes\<close> and \<open>fields\<close> (here \<open>flds\<close>). The first equation is the \<open>fields.push\<close> after the loop.
\<close>

fun scanLine :: "string \<Rightarrow> string \<Rightarrow> bool \<Rightarrow> string list \<Rightarrow> string list" where
  "scanLine [] currentField inQuotes flds = flds @ [trim currentField]"
| "scanLine [c] currentField inQuotes flds =
     (if c = dquote then scanLine [] currentField (\<not> inQuotes) flds
      else if c = comma \<and> \<not> inQuotes then scanLine [] [] inQuotes (flds @ [trim currentField])
      else scanLine [] (currentField @ [c]) inQuotes flds)"
| "scanLine (c # d # cs) currentField inQuotes flds =
     (if c = dquote then
        (if inQuotes \<and> d = dquote then scanLine cs (currentField @ [dquote]) inQuotes flds
         else scanLine (d # cs) currentField (\<not> inQuotes) flds)
      else if c = comma \<and> \<not> inQuotes then
        scanLine (d # cs) [] inQuotes (flds @ [trim currentField])
      else scanLine (d # cs) (currentField @ [c]) inQuotes flds)"

definition parseCsv :: "string \<Rightarrow> string list list" where
  "parseCsv text =
     (let lines = filter (\<lambda>line. trim line \<noteq> []) (splitLines text)
      in if length lines = 0 then []
         else map (\<lambda>line. scanLine line [] False []) lines)"

fun join :: "string \<Rightarrow> string list \<Rightarrow> string" where
  "join sep [] = []"
| "join sep [x] = x"
| "join sep (x # y # ys) = x @ sep @ join sep (y # ys)"

text \<open>\<open>str.replace(/"/g, '""')\<close>\<close>

fun doubleQuotes :: "string \<Rightarrow> string" where
  "doubleQuotes [] = []"
| "doubleQuotes (c # cs) = (if c = dquote then dquote # dquote # doubleQuotes cs
                            else c # doubleQuotes cs)"

text \<open>\<open>String(cell)\<close> for a cell that is neither \<open>null\<close> nor \<open>undefined\<close>.\<close>

fun jsString :: "runtime \<Rightarrow> jsval \<Rightarrow> string" where
  "jsString rt Undefined = ''undefined''"
| "jsString rt (Num n) = numberToString rt n"
| "jsString rt (Str s) = s"
| "jsString rt (Arr xs) = join [comma] xs"
| "jsString rt (DateV d) = dateToString rt d"
| "jsString rt (AnalysisV a) = ''[object Object]''"

definition escapeCsvCell :: "runtime \<Rightarrow> jsval \<Rightarrow> string" where
  "escapeCsvCell rt cell =
     (if cell = Undefined then []
      else let str0 = jsString rt cell;
               str = (case cell of Arr xs \<Rightarrow> join [pipe] xs | _ \<Rightarrow> str0)
           in if comma \<in> set str \<or> dquote \<in> set str \<or> lf \<in> set str
              then [dquote] @ doubleQuotes str @ [dquote]
              else str)"

section \<open>TemporalNormalizer\<close>

definition is_digit :: "char \<Rightarrow> bool" where
  "is_digit c = (48 \<le> (of_char c :: nat) \<and> (of_char c :: nat) \<le> 57)"

definition is_sep :: "char \<Rightarrow> bool" where
  "is_sep c = (c = CHR ''/'' \<or> c = CHR ''-'')"

text \<open>\<open>parseInt\<close> of a string of decimal digits.\<close>

definition parseInt :: "string \<Rightarrow> int" where
  "parseInt ds = foldl (\<lambda>n c. 10 * n + (of_char c - 48)) 0 ds"

text \<open>
  \<open>(\d{1,2})\<close> at the head of a string, greedy. The shorter alternative never succeeds
  where the longer one was possible: it would need a separator where a digit stands.
\<close>

fun digits12 :: "string \<Rightarrow> (string \<times> string) option" where
  "digits12 [] = None"
| "digits12 [c] = (if is_digit c then Some ([c], []) else None)"
| "digits12 (c # d # cs) =
     (if is_digit c \<and> is_digit d then Some ([c, d], cs)
      else if is_digit c then Some ([c], d # cs) else None)"

text \<open>The pattern \<open>(\d{1,2})[/-](\d{1,2})[/-](\d{4})\<close> anchored at the head of a string.\<close>

definition matchHere :: "string \<Rightarrow> (string \<times> string \<times> string) option" where
  "matchHere s =
     (case digits12 s of None \<Rightarrow> None
      | Some (g1, r1) \<Rightarrow>
        (case r1 of [] \<Rightarrow> None
         | s1 # r2 \<Rightarrow>
           if \<not> is_sep s1 then None
           else (case digits12 r2 of None \<Rightarrow> None
             | Some (g2, r3) \<Rightarrow>
               (case r3 of [] \<Rightarrow> None
                | s2 # r4 \<Rightarrow>
                  if is_sep s2 \<and> 4 \<le> length r4 \<and> list_all is_digit (take 4 r4)
                  then Some (g1, g2, take 4 r4) else None))))"

text \<open>\<open>dateStr.match(...)\<close>: the leftmost match, \<open>None\<close> for \<open>null\<close>.\<close>

fun matchDate :: "string \<Rightarrow> (string \<times> string \<times> string) option" where
  "matchDate [] = None"
| "matchDate (c # cs) =
     (case matchHere (c # cs) of Some m \<Rightarrow> Some m | None \<Rightarrow> matchDate cs)"

text \<open>
  \<open>new Date(year, monthIndex, day)\<close> as the language defines it: a year from 0 to 99 is
  taken in the 1900s, \<open>MakeDay\<close> carries a month index outside 0..11 into the year and
  adds the day of the month to the first of that month without checking it, the local
  time is converted to UTC, and \<open>TimeClip\<close> gives \<open>NaN\<close> beyond 8.64e15 ms.
\<close>

definition dayFromYear :: "int \<Rightarrow> int" where
  "dayFromYear y = 365 * (y - 1970) + (y - 1969) div 4 - (y - 1901) div 100 + (y - 1601) div 400"

definition isLeapYear :: "int \<Rightarrow> bool" where
  "isLeapYear y = (y mod 4 = 0 \<and> (y mod 100 \<noteq> 0 \<or> y mod 400 = 0))"

definition monthStart :: "int \<Rightarrow> int \<Rightarrow> int" where
  "monthStart y mn =
     [0, 31, 59, 90, 120, 151, 181, 212, 243, 273, 304, 334] ! nat mn
     + (if isLeapYear y \<and> 2 \<le> mn then 1 else 0)"

definition makeDay :: "int \<Rightarrow> int \<Rightarrow> int \<Rightarrow> int" where
  "makeDay year month dt =
     (let ym = year + month div 12; mn = month mod 12
      in dayFromYear ym + monthStart ym mn + dt - 1)"

definition msPerDay :: int where "msPerDay = 86400000"

definition timeClip :: "int \<Rightarrow> jsdate" where
  "timeClip t = (if \<bar>t\<bar> \<le> 8640000000000000 then Instant t else InvalidDate)"

definition newDate :: "runtime \<Rightarrow> int \<Rightarrow> int \<Rightarrow> int \<Rightarrow> jsdate" where
  "newDate rt year month dt =
     (let yr = (if 0 \<le> year \<and> year \<le> 99 then 1900 + year else year)
      in timeClip (utc rt (makeDay yr month dt * msPerDay)))"

text \<open>
  \<open>parseDate\<close>. Its argument is \<open>item[header]\<close>: a CSV field, or \<open>undefined\<close> on a short
  row. The result is a \<open>Date\<close> or \<open>undefined\<close>.
\<close>

fun parseDate :: "runtime \<Rightarrow> jsval \<Rightarrow> jsval" where
  "parseDate rt (Str dateStr) =
     (if dateStr = [] then Undefined
      else let d = dateParse rt dateStr
        in if d \<noteq> InvalidDate then DateV d
        else (case matchDate dateStr of
            None \<Rightarrow> Undefined
          | Some (p1, p2, p3) \<Rightarrow>
              let d2 = newDate rt (parseInt p3) (parseInt p1 - 1) (parseInt p2)
              in if d2 \<noteq> InvalidDate then DateV d2
              else let d3 = newDate rt (parseInt p3) (parseInt p2 - 1) (parseInt p1)
                in if d3 \<noteq> InvalidDate then DateV d3 else Undefined))"
| "parseDate rt _ = Undefined"

section \<open>Analyzer\<close>

datatype js_error = ClientNotInitialized | TypeError

text \<open>What the call to the model can throw: an object with or without a message, or a string.\<close>

datatype thrown = ErrorObject "string option" | ErrorString string

primrec strIncludes :: "string \<Rightarrow> string \<Rightarrow> bool" where
  "strIncludes [] pat = (pat = [])"
| "strIncludes (c # cs) pat = (take (length pat) (c # cs) = pat \<or> strIncludes cs pat)"

definition emptyAnalysis :: analysis where
  "emptyAnalysis = \<lparr> aerror = None, sentiment = None, sentiment_score = None, intent = None,
     emotions = None, topics = None, explanation = None, confidence = None,
     redacted_excerpt = None \<rparr>"

definition rateLimitMessage :: string where
  "rateLimitMessage = ''API rate limit was reached. The process is being slowed down automatically. If this persists, please try a smaller file.''"

definition notFoundMessage :: string where
  "notFoundMessage = ''The specified model was not found. Please ensure you are using a valid Gemini model name.''"

text \<open>
  \<open>analyzeSurveyResponse\<close>. \<open>hasClient\<close> is \<open>this.ai\<close> being set; \<open>generate\<close> is the call
  to the model followed by \<open>JSON.parse\<close>, which either throws or gives the parsed object.
\<close>

definition analyzeSurveyResponse ::
  "bool \<Rightarrow> (jsval \<Rightarrow> thrown + analysis) \<Rightarrow> jsval \<Rightarrow> js_error + analysis" where
  "analyzeSurveyResponse hasClient generate responseText =
     (if \<not> hasClient then Inl ClientNotInitialized
      else case generate responseText of
          Inr parsed \<Rightarrow> Inr parsed
        | Inl err \<Rightarrow>
            let message =
              (case err of
                 ErrorObject (Some m) \<Rightarrow>
                   if m \<noteq> [] then
                     (if strIncludes m ''429'' then rateLimitMessage
                      else if strIncludes m ''404'' then notFoundMessage
                      else m)
                   else ''Failed to analyze response.''
               | ErrorObject None \<Rightarrow> ''Failed to analyze response.''
               | ErrorString s \<Rightarrow> s)
            in Inr (emptyAnalysis\<lparr>aerror := Some message\<rparr>))"

section \<open>Numbers: IEEE double arithmetic for the progress value\<close>

text \<open>
  \<open>processedCount / totalToProcess\<close> and the product with 100 are each rounded to the
  nearest double, ties to even. \<open>expo x\<close> is the binary exponent of a positive rational,
  \<open>dbl\<close> the rounding to 53 significant bits (exponent range not limited: the values here
  lie between 1/total and 100). \<open>Math.round\<close> rounds to the nearest integer, ties upwards.
\<close>

definition expo :: "rat \<Rightarrow> int" where
  "expo x =
     (let p = fst (quotient_of x); q = snd (quotient_of x);
          d = bitlen p - bitlen q
      in if 2 powi d \<le> x then d else d - 1)"

definition roundEven :: "rat \<Rightarrow> int" where
  "roundEven x =
     (let f = \<lfloor>x\<rfloor>; r = x - of_int f
      in if r < 1 / 2 then f else if 1 / 2 < r then f + 1
         else if even f then f else f + 1)"

definition dbl :: "rat \<Rightarrow> rat" where
  "dbl x =
     (if x = 0 then 0
      else let a = \<bar>x\<bar>; u = 2 powi (expo a - 52); m = of_int (roundEven (a / u)) * u
           in if x < 0 then - m else m)"

definition mathRound :: "rat \<Rightarrow> int" where
  "mathRound x = \<lfloor>x + 1 / 2\<rfloor>"

definition progressOf :: "nat \<Rightarrow> nat \<Rightarrow> int" where
  "progressOf processedCount totalToProcess =
     mathRound (dbl (dbl (of_nat processedCount / of_nat totalToProcess) * 100))"

section \<open>ClassificationQueue\<close>

datatype app_state = Upload | Mapping | Analyzing | Results

record app =
  appState :: app_state
  errorMsg :: string
  rawCsvData :: "string list list"
  mappedTextColumn :: string
  mappedDateColumn :: string
  analysisResults :: "jsobj list"
  analysisProgress :: int
  isAnalyzing :: bool

definition headers :: "app \<Rightarrow> string list" where
  "headers st = (case rawCsvData st of [] \<Rightarrow> [] | h # _ \<Rightarrow> h)"

definition rows :: "app \<Rightarrow> string list list" where
  "rows st = drop 1 (rawCsvData st)"

text \<open>\<open>arr.indexOf(x)\<close>\<close>

fun indexOf :: "string list \<Rightarrow> string \<Rightarrow> int" where
  "indexOf [] x = -1"
| "indexOf (y # ys) x =
     (if y = x then 0 else let i = indexOf ys x in if i < 0 then -1 else i + 1)"

text \<open>\<open>row[i]\<close>: \<open>undefined\<close> past the end of a short row.\<close>

definition cellAt :: "string list \<Rightarrow> nat \<Rightarrow> jsval" where
  "cellAt row i = (if i < length row then Str (row ! i) else Undefined)"

text \<open>
  \<open>this.headers()[i]\<close> used as a property key: outside the array it is \<open>undefined\<close>, which
  as a key is the string \<open>undefined\<close>.
\<close>

definition headerKey :: "string list \<Rightarrow> int \<Rightarrow> string" where
  "headerKey hs i = (if 0 \<le> i \<and> i < int (length hs) then hs ! nat i else ''undefined'')"

text \<open>
  The body of the \<open>map\<close> in \<open>startAnalysis\<close>: the object starts as \<open>{ rowId: index + 2 }\<close>
  and \<open>headers().forEach\<close> then assigns \<open>response[header] = row[i]\<close>, header by header.
\<close>

fun assignHeaders :: "string list \<Rightarrow> string list \<Rightarrow> nat \<Rightarrow> jsobj \<Rightarrow> jsobj" where
  "assignHeaders [] row i response = response"
| "assignHeaders (header # hs) row i response =
     assignHeaders hs row (Suc i) (response(header \<mapsto> cellAt row i))"

definition toSurveyResponse :: "string list \<Rightarrow> string list \<Rightarrow> nat \<Rightarrow> jsobj" where
  "toSurveyResponse hs row index =
     assignHeaders hs row 0 (Map.empty(''rowId'' \<mapsto> Num (of_nat index + 2)))"

fun mapIndexed :: "(nat \<Rightarrow> 'a \<Rightarrow> 'b) \<Rightarrow> nat \<Rightarrow> 'a list \<Rightarrow> 'b list" where
  "mapIndexed f i [] = []"
| "mapIndexed f i (x # xs) = f i x # mapIndexed f (Suc i) xs"

text \<open>
  \<open>processItem\<close>. \<open>generate n\<close> is the model as the call after \<open>n\<close> processed items
  finds it. The local
  counter \<open>processedCount\<close> travels with the state. A throw of the analyzer leaves the
  state as it was.
\<close>

definition processItem ::
  "runtime \<Rightarrow> bool \<Rightarrow> (nat \<Rightarrow> jsval \<Rightarrow> thrown + analysis) \<Rightarrow> string list \<Rightarrow> int \<Rightarrow> int \<Rightarrow> nat
     \<Rightarrow> jsobj \<Rightarrow> nat \<times> app \<Rightarrow> js_error + nat \<times> app" where
  "processItem rt hasClient generate hs textIndex dateIndex totalToProcess item s =
     (case s of (processedCount, st) \<Rightarrow>
      (case analyzeSurveyResponse hasClient (generate processedCount)
              (getProp item (headerKey hs textIndex)) of
         Inl e \<Rightarrow> Inl e
       | Inr an \<Rightarrow>
           let result = item;
               result = (case aerror an of
                           Some msg \<Rightarrow> if msg \<noteq> [] then result(''error'' \<mapsto> Str msg)
                                       else result(''analysis'' \<mapsto> AnalysisV an)
                         | None \<Rightarrow> result(''analysis'' \<mapsto> AnalysisV an));
               result = (if dateIndex > -1
                         then result(''date'' \<mapsto> parseDate rt (getProp item (headerKey hs dateIndex)))
                         else result);
               processedCount = processedCount + 1
           in Inr (processedCount,
                   st\<lparr>analysisProgress := progressOf processedCount totalToProcess,
                      analysisResults := analysisResults st @ [result]\<rparr>)))"

text \<open>
  The \<open>for\<close> loop of \<open>processAnalysisQueue\<close>. The pause between two items changes no
  state. A throw ends the loop with the state reached so far.
\<close>

fun processLoop ::
  "runtime \<Rightarrow> bool \<Rightarrow> (nat \<Rightarrow> jsval \<Rightarrow> thrown + analysis) \<Rightarrow> string list \<Rightarrow> int \<Rightarrow> int \<Rightarrow> nat
     \<Rightarrow> jsobj list \<Rightarrow> nat \<times> app \<Rightarrow> (js_error \<times> app) + nat \<times> app" where
  "processLoop rt hasClient generate hs textIndex dateIndex totalToProcess [] s = Inr s"
| "processLoop rt hasClient generate hs textIndex dateIndex totalToProcess (item # queue) s =
     (case processItem rt hasClient generate hs textIndex dateIndex totalToProcess item s of
        Inl e \<Rightarrow> Inl (e, snd s)
      | Inr s2 \<Rightarrow> processLoop rt hasClient generate hs textIndex dateIndex totalToProcess queue s2)"

definition processAnalysisQueue ::
  "runtime \<Rightarrow> bool \<Rightarrow> (nat \<Rightarrow> jsval \<Rightarrow> thrown + analysis) \<Rightarrow> jsobj list \<Rightarrow> int \<Rightarrow> int
     \<Rightarrow> app \<Rightarrow> (js_error \<times> app) + app" where
  "processAnalysisQueue rt hasClient generate queue textIndex dateIndex st =
     (let totalToProcess = length queue
      in case processLoop rt hasClient generate (headers st) textIndex dateIndex totalToProcess queue (0, st) of
           Inl e \<Rightarrow> Inl e
         | Inr (n, st') \<Rightarrow> Inr (st'\<lparr>isAnalyzing := False, appState := Results\<rparr>))"

definition dataToAnalyze :: "app \<Rightarrow> jsobj list" where
  "dataToAnalyze st = mapIndexed (\<lambda>index row. toSurveyResponse (headers st) row index) 0 (rows st)"

definition startAnalysis ::
  "runtime \<Rightarrow> bool \<Rightarrow> (nat \<Rightarrow> jsval \<Rightarrow> thrown + analysis) \<Rightarrow> app \<Rightarrow> (js_error \<times> app) + app" where
  "startAnalysis rt hasClient generate st =
     (if mappedTextColumn st = [] then
        Inr (st\<lparr>errorMsg := ''Please select the column for response text.''\<rparr>)
      else
        let st1 = st\<lparr>errorMsg := [], appState := Analyzing, isAnalyzing := True,
                     analysisProgress := 0\<rparr>;
            textColumnIndex = indexOf (headers st1) (mappedTextColumn st1);
            dateColumnIndex = (if mappedDateColumn st1 \<noteq> []
                               then indexOf (headers st1) (mappedDateColumn st1) else -1)
        in processAnalysisQueue rt hasClient generate (dataToAnalyze st1) textColumnIndex dateColumnIndex st1)"

text \<open>The state of a freshly created component.\<close>

definition initialApp :: app where
  "initialApp = \<lparr> appState = Upload, errorMsg = [], rawCsvData = [], mappedTextColumn = [],
     mappedDateColumn = [], analysisResults = [], analysisProgress = 0, isAnalyzing = False \<rparr>"

section \<open>Notions used to state the properties of the queue\<close>

text \<open>
  \<open>returned g v\<close> is the object \<open>analyzeSurveyResponse\<close> returns when the client exists;
  \<open>resultOf\<close> is the \<open>result\<close> object \<open>processItem\<close> builds from an item and that object;
  \<open>resultsOf\<close> lists them for a queue, the \<open>n\<close>-th call answering the \<open>n\<close>-th item;
  \<open>progressAfter ... k\<close> is the value of \<open>analysisProgress\<close> when the first \<open>k\<close> items
  of the queue have been processed (\<open>None\<close> if the analyzer threw before).
\<close>

definition returned :: "(jsval \<Rightarrow> thrown + analysis) \<Rightarrow> jsval \<Rightarrow> analysis" where
  "returned g v = (case analyzeSurveyResponse True g v of Inr a \<Rightarrow> a | Inl _ \<Rightarrow> emptyAnalysis)"

definition resultOf :: "runtime \<Rightarrow> string list \<Rightarrow> int \<Rightarrow> jsobj \<Rightarrow> analysis \<Rightarrow> jsobj" where
  "resultOf rt hs dateIndex item an =
     (let r1 = (if aerror an \<noteq> None \<and> aerror an \<noteq> Some [] then item(''error'' \<mapsto> Str (the (aerror an)))
                else item(''analysis'' \<mapsto> AnalysisV an))
      in if dateIndex > -1
         then r1(''date'' \<mapsto> parseDate rt (getProp item (headerKey hs dateIndex)))
         else r1)"

definition resultsOf ::
  "runtime \<Rightarrow> (nat \<Rightarrow> jsval \<Rightarrow> thrown + analysis) \<Rightarrow> string list \<Rightarrow> int \<Rightarrow> int \<Rightarrow> nat
     \<Rightarrow> jsobj list \<Rightarrow> jsobj list" where
  "resultsOf rt generate hs textIndex dateIndex c items =
     mapIndexed (\<lambda>n item. resultOf rt hs dateIndex item
        (returned (generate n) (getProp item (headerKey hs textIndex)))) c items"

definition progressAfter ::
  "runtime \<Rightarrow> bool \<Rightarrow> (nat \<Rightarrow> jsval \<Rightarrow> thrown + analysis) \<Rightarrow> string list \<Rightarrow> int \<Rightarrow> int
     \<Rightarrow> jsobj list \<Rightarrow> app \<Rightarrow> nat \<Rightarrow> int option" where
  "progressAfter rt hasClient generate hs textIndex dateIndex queue st k =
     (case processLoop rt hasClient generate hs textIndex dateIndex (length queue)
             (take k queue) (0, st) of
        Inl _ \<Rightarrow> None
      | Inr (c, s) \<Rightarrow> Some (analysisProgress s))"

section \<open>FilterEngine\<close>

text \<open>
  A set built by insertion keeps each element at its first occurrence (\<open>new Set(...)\<close>,
  the keys of an object).
\<close>

fun uniqFrom :: "'a list \<Rightarrow> 'a list \<Rightarrow> 'a list" where
  "uniqFrom seen [] = []"
| "uniqFrom seen (x # xs) =
     (if x \<in> set seen then uniqFrom seen xs else x # uniqFrom (x # seen) xs)"

definition uniq :: "'a list \<Rightarrow> 'a list" where
  "uniq xs = uniqFrom [] xs"

text \<open>
  The conversion of a value to a number for \<open><\<close> and \<open>>\<close>, and the comparison itself when
  one side is a \<open>Date\<close> (then the two sides are never both strings): false if a side is \<open>NaN\<close>.
\<close>

fun toNum :: "runtime \<Rightarrow> jsval \<Rightarrow> rat option" where
  "toNum rt Undefined = None"
| "toNum rt (Num n) = Some n"
| "toNum rt (Str s) = toNumber rt s"
| "toNum rt (Arr xs) = toNumber rt (join [comma] xs)"
| "toNum rt (DateV (Instant t)) = Some (of_int t)"
| "toNum rt (DateV InvalidDate) = None"
| "toNum rt (AnalysisV a) = None"

definition jsLess :: "runtime \<Rightarrow> jsval \<Rightarrow> jsval \<Rightarrow> bool" where
  "jsLess rt a b = (case toNum rt a of None \<Rightarrow> False
                    | Some x \<Rightarrow> (case toNum rt b of None \<Rightarrow> False | Some y \<Rightarrow> x < y))"

text \<open>
  \<open>filteredAnalysisResults\<close>: \<open>activeFilters\<close> is the \<open>filters\<close> object as the list of its
  properties, \<open>startDate\<close> and \<open>endDate\<close> are \<open>Date | null\<close>.
\<close>

definition filteredAnalysisResults ::
  "runtime \<Rightarrow> jsobj list \<Rightarrow> (string \<times> string) list \<Rightarrow> jsdate option \<Rightarrow> jsdate option
     \<Rightarrow> jsobj list" where
  "filteredAnalysisResults rt results activeFilters startDate endDate =
     (let filterKeys = filter (\<lambda>key. case map_of activeFilters key of
                                         None \<Rightarrow> False
                                       | Some v \<Rightarrow> v \<noteq> [] \<and> v \<noteq> ''all'')
                         (uniq (map fst activeFilters))
      in if length filterKeys = 0 \<and> startDate = None \<and> endDate = None then results
         else filter (\<lambda>r.
           let dimensionMatch = list_all (\<lambda>key. case map_of activeFilters key of
                                                   None \<Rightarrow> getProp r key = Undefined
                                                 | Some v \<Rightarrow> getProp r key = Str v) filterKeys
           in if \<not> dimensionMatch then False
              else if (case startDate of None \<Rightarrow> False
                       | Some sd \<Rightarrow> \<not> truthy (getProp r ''date'')
                                   \<or> jsLess rt (getProp r ''date'') (DateV sd)) then False
              else if (case endDate of None \<Rightarrow> False
                       | Some ed \<Rightarrow> \<not> truthy (getProp r ''date'')
                                   \<or> jsLess rt (DateV ed) (getProp r ''date'')) then False
              else True) results)"

section \<open>AggregationEngine\<close>

datatype field = Sentiment | Intent | Topics

text \<open>
  The \<open>counts\<close> object of \<open>getCounts\<close> as the list of its own properties in creation order.
  It is created as \<open>{}\<close>, so it inherits the members of \<open>Object.prototype\<close>, and a value of
  a property is a number or, after a read of an inherited member, a string.
\<close>

datatype cval = CNum nat | CStr string

text \<open>The function members of \<open>Object.prototype\<close>; the accessor \<open>__proto__\<close> is treated apart.\<close>

definition prototypeFunctions :: "string list" where
  "prototypeFunctions = [''constructor'', ''__defineGetter__'', ''__defineSetter__'',
     ''hasOwnProperty'', ''__lookupGetter__'', ''__lookupSetter__'', ''isPrototypeOf'',
     ''propertyIsEnumerable'', ''toString'', ''valueOf'', ''toLocaleString'']"

text \<open>\<open>counts[k] = v\<close> for a key other than \<open>__proto__\<close>: the own property is set or created.\<close>

fun setOwn :: "(string \<times> cval) list \<Rightarrow> string \<Rightarrow> cval \<Rightarrow> (string \<times> cval) list" where
  "setOwn [] k v = [(k, v)]"
| "setOwn ((k', c) # rest) k v = (if k' = k then (k', v) # rest else (k', c) # setOwn rest k v)"

text \<open>
  \<open>bump\<close> is \<open>counts[k] = (counts[k] || 0) + 1\<close>. An own number is incremented. An own
  string is truthy unless empty, and \<open>+ 1\<close> appends the character 1 to it. Without an own
  property the read finds \<open>undefined\<close>, or an inherited function \<open>f\<close>, and then the sum is the
  string \<open>String(f)\<close> followed by 1 (\<open>protoText k\<close> is \<open>String(f)\<close>, which the implementation
  chooses), or for \<open>__proto__\<close> the prototype object, and then the assignment of the
  string \<open>[object Object]1\<close> to \<open>__proto__\<close> changes nothing.
\<close>

definition bump ::
  "(string \<Rightarrow> string) \<Rightarrow> (string \<times> cval) list \<Rightarrow> string \<Rightarrow> (string \<times> cval) list" where
  "bump protoText counts k =
     (case map_of counts k of
        Some (CNum n) \<Rightarrow> setOwn counts k (CNum (n + 1))
      | Some (CStr s) \<Rightarrow> setOwn counts k (if s = [] then CNum 1 else CStr (s @ ''1''))
      | None \<Rightarrow>
          if k = ''__proto__'' then counts
          else if k \<in> set prototypeFunctions then setOwn counts k (CStr (protoText k @ ''1''))
          else setOwn counts k (CNum 1))"

text \<open>
  What one record adds in the \<open>forEach\<close> of \<open>getCounts\<close>, given its \<open>analysis\<close> member: the
  topics one by one, or the single truthy value of the field. A string, number or date
  has no such member.
\<close>

definition nonEmpty :: "string option \<Rightarrow> string list" where
  "nonEmpty v = (case v of None \<Rightarrow> [] | Some s \<Rightarrow> if s \<noteq> [] then [s] else [])"

definition fieldValues :: "field \<Rightarrow> jsval \<Rightarrow> string list" where
  "fieldValues fld v =
     (if \<not> truthy v then []
      else case v of
          AnalysisV a \<Rightarrow>
            (case fld of
               Topics \<Rightarrow> (case topics a of None \<Rightarrow> [] | Some ts \<Rightarrow> ts)
             | Sentiment \<Rightarrow> nonEmpty (sentiment a)
             | Intent \<Rightarrow> nonEmpty (intent a))
        | _ \<Rightarrow> [])"

text \<open>
  \<open>Object.entries\<close>: the keys that are array indices (canonical decimal numerals below
  \<open>2^32 - 1\<close>) come first in ascending order, the others follow in creation order.
\<close>

definition arrayIndex :: "string \<Rightarrow> nat option" where
  "arrayIndex s =
     (if s \<noteq> [] \<and> list_all is_digit s \<and> (s = ''0'' \<or> hd s \<noteq> CHR ''0'')
         \<and> parseInt s < 4294967295
      then Some (nat (parseInt s)) else None)"

definition objectEntries :: "(string \<times> 'a) list \<Rightarrow> (string \<times> 'a) list" where
  "objectEntries ob =
     sort_key (\<lambda>e. case arrayIndex (fst e) of None \<Rightarrow> 0 | Some i \<Rightarrow> i)
       (filter (\<lambda>e. arrayIndex (fst e) \<noteq> None) ob)
     @ filter (\<lambda>e. arrayIndex (fst e) = None) ob"

text \<open>
  \<open>arr.sort((a, b) => b[1] - a[1])\<close>. The difference is \<open>NaN\<close> when a value is a string
  that denotes no number, and the sort takes \<open>NaN\<close> as 0. The sort is stable; the model
  inserts the elements from the right, each before the first element it does not have to
  follow. (Where the differences are not those of a consistent ordering, which takes a
  string among the values, the language leaves the order to the implementation.)
\<close>

fun countNumber :: "runtime \<Rightarrow> cval \<Rightarrow> rat option" where
  "countNumber rt (CNum n) = Some (of_nat n)"
| "countNumber rt (CStr s) = toNumber rt s"

definition compareCounts :: "runtime \<Rightarrow> string \<times> cval \<Rightarrow> string \<times> cval \<Rightarrow> rat" where
  "compareCounts rt a b =
     (case countNumber rt (snd b) of
        None \<Rightarrow> 0
      | Some y \<Rightarrow> (case countNumber rt (snd a) of None \<Rightarrow> 0 | Some x \<Rightarrow> y - x))"

fun insertBy :: "('a \<Rightarrow> 'a \<Rightarrow> rat) \<Rightarrow> 'a \<Rightarrow> 'a list \<Rightarrow> 'a list" where
  "insertBy cmp x [] = [x]"
| "insertBy cmp x (y # ys) = (if cmp x y \<le> 0 then x # y # ys else y # insertBy cmp x ys)"

definition sortBy :: "('a \<Rightarrow> 'a \<Rightarrow> rat) \<Rightarrow> 'a list \<Rightarrow> 'a list" where
  "sortBy cmp xs = foldr (insertBy cmp) xs []"

definition getCounts ::
  "runtime \<Rightarrow> (string \<Rightarrow> string) \<Rightarrow> jsobj list \<Rightarrow> field \<Rightarrow> nat option \<Rightarrow> (string \<times> cval) list" where
  "getCounts rt protoText results fld slice =
     (let counts = foldl (\<lambda>counts r. foldl (bump protoText) counts
                                      (fieldValues fld (getProp r ''analysis'')))
                     [] results;
          sorted = sortBy (compareCounts rt) (objectEntries counts)
      in case slice of
           None \<Rightarrow> sorted
         | Some n \<Rightarrow> if n \<noteq> 0 then rev (take n sorted) else sorted)"

text \<open>
  \<open>topicTree\<close>. Every node is created in the one table \<open>root\<close> (\<open>currentLevel\<close> is never
  moved off it; it is \<open>rootTable\<close> below), so a node is known by its name; \<open>subTopics\<close> holds references to nodes of
  the table, here their names. The table is modelled with its own members only: a topic
  named like a member that \<open>root\<close> inherits (\<open>constructor\<close>, \<open>toString\<close>, ...) is outside
  this model of \<open>topicTree\<close>.
\<close>

record topicNode =
  name :: string
  count :: nat
  responses :: "jsobj list"
  subTopics :: "string list"
  expanded :: bool

fun updateNode ::
  "(string \<times> topicNode) list \<Rightarrow> string \<Rightarrow> (topicNode \<Rightarrow> topicNode) \<Rightarrow> (string \<times> topicNode) list" where
  "updateNode [] k f = []"
| "updateNode ((k', n) # rest) k f =
     (if k' = k then (k', f n) # rest else (k', n) # updateNode rest k f)"

text \<open>The inner \<open>forEach\<close> over the topics of one record; \<open>parentNode\<close> is \<open>None\<close> for \<open>null\<close>.\<close>

fun walkTopics ::
  "(string \<times> topicNode) list \<Rightarrow> string option \<Rightarrow> jsobj \<Rightarrow> string list
     \<Rightarrow> (string \<times> topicNode) list" where
  "walkTopics rootTable parentNode r [] = rootTable"
| "walkTopics rootTable parentNode r (topicName # rest) =
     (let root1 =
        (if map_of rootTable topicName = None then
           let created = rootTable @ [(topicName, \<lparr> name = topicName, count = 0, responses = [],
                                              subTopics = [], expanded = False \<rparr>)]
           in (case parentNode of
                 None \<Rightarrow> created
               | Some p \<Rightarrow>
                   (case map_of created p of
                      None \<Rightarrow> created
                    | Some pn \<Rightarrow>
                        if \<not> list_ex (\<lambda>st. st = topicName) (subTopics pn)
                        then updateNode created p (\<lambda>n. n\<lparr>subTopics := subTopics n @ [topicName]\<rparr>)
                        else created))
         else rootTable);
          root2 = updateNode root1 topicName
                    (\<lambda>n. n\<lparr>count := count n + 1, responses := responses n @ [r]\<rparr>)
      in walkTopics root2 (Some topicName) r rest)"

text \<open>
  \<open>r.analysis?.topics[0]\<close>: \<open>undefined\<close> (here \<open>None\<close>) when \<open>analysis\<close> is missing or the list
  is empty, a \<open>TypeError\<close> when \<open>analysis\<close> is there without a \<open>topics\<close> member.
\<close>

definition firstTopic :: "jsobj \<Rightarrow> js_error + string option" where
  "firstTopic r =
     (case getProp r ''analysis'' of
        Undefined \<Rightarrow> Inr None
      | AnalysisV a \<Rightarrow>
          (case topics a of
             None \<Rightarrow> Inl TypeError
           | Some [] \<Rightarrow> Inr None
           | Some (t # _) \<Rightarrow> Inr (Some t))
      | _ \<Rightarrow> Inl TypeError)"

fun firstTopics :: "jsobj list \<Rightarrow> js_error + string option list" where
  "firstTopics [] = Inr []"
| "firstTopics (r # rs) =
     (case firstTopic r of
        Inl e \<Rightarrow> Inl e
      | Inr t \<Rightarrow> (case firstTopics rs of Inl e \<Rightarrow> Inl e | Inr ts \<Rightarrow> Inr (t # ts)))"

definition buildRoot :: "jsobj list \<Rightarrow> (string \<times> topicNode) list" where
  "buildRoot results =
     foldl (\<lambda>rootTable r.
        case getProp r ''analysis'' of
          AnalysisV a \<Rightarrow>
            (case topics a of
               None \<Rightarrow> rootTable
             | Some ts \<Rightarrow> if length ts = 0 then rootTable else walkTopics rootTable None r ts)
        | _ \<Rightarrow> rootTable) [] results"

definition topicTree :: "jsobj list \<Rightarrow> js_error + topicNode list" where
  "topicTree results =
     (let rootTable = buildRoot results
      in case firstTopics results of
           Inl e \<Rightarrow> Inl e
         | Inr ts \<Rightarrow>
             let topLevelTopics = uniq (concat (map nonEmpty ts))
             in Inr (sort_key (\<lambda>n. - int (count n))
                       (List.map_filter (map_of rootTable) topLevelTopics)))"

text \<open>
  \<open>trendData\<close>. \<open>floorTo\<close> is \<open>periodFunc.floor\<close> of the charting library applied to the
  \<open>date\<close> member: the time value of the floored date, \<open>None\<close> when that is an invalid date
  (the library converts the member to a number first, so a member that is no \<open>Date\<close> has a
  floor too). \<open>d3.rollup\<close> compares its keys by time value. The result of \<open>trendData\<close> is
  \<open>None\<close> for \<open>null\<close>.
\<close>

datatype period = Day | Week | Month

text \<open>
  An entry of \<open>stackedData\<close> is an object with the member \<open>date\<close> and one member per key.
  \<open>entry[key] = value\<close> on it adds or overwrites an own member, except for the key
  \<open>__proto__\<close>, whose inherited setter ignores a number.
\<close>

datatype entryval = EDate "int option" | ECount nat

definition setMember :: "(string \<rightharpoonup> entryval) \<Rightarrow> string \<Rightarrow> entryval \<Rightarrow> (string \<rightharpoonup> entryval)" where
  "setMember entry key v = (if key = ''__proto__'' then entry else entry(key \<mapsto> v))"

record trend =
  series :: "(string \<times> (int option \<times> nat) list) list"
  dates :: "int option list"
  keys :: "string list"
  stackedData :: "(string \<rightharpoonup> entryval) list"

definition trendResults :: "jsobj list \<Rightarrow> jsobj list" where
  "trendResults filtered =
     filter (\<lambda>r. truthy (getProp r ''date'') \<and> truthy (getProp r ''analysis'')) filtered"

text \<open>The value of \<open>r.analysis[groupBy]\<close> as a list: the array itself, or the one value.\<close>

definition groupValues :: "field \<Rightarrow> jsval \<Rightarrow> string option list" where
  "groupValues groupBy v =
     (case v of
        AnalysisV a \<Rightarrow>
          (case groupBy of
             Topics \<Rightarrow> (case topics a of None \<Rightarrow> [None] | Some ts \<Rightarrow> map Some ts)
           | Sentiment \<Rightarrow> [sentiment a]
           | Intent \<Rightarrow> [intent a])
      | _ \<Rightarrow> [None])"

fun bumpExisting :: "(string \<times> nat) list \<Rightarrow> string \<Rightarrow> (string \<times> nat) list" where
  "bumpExisting [] k = []"
| "bumpExisting ((k', c) # rest) k =
     (if k' = k then (k', c + 1) # rest else (k', c) # bumpExisting rest k)"

text \<open>\<open>d3.rollup\<close>: the groups in the order their keys first occur.\<close>

fun addToGroup :: "('k \<times> 'a list) list \<Rightarrow> 'k \<Rightarrow> 'a \<Rightarrow> ('k \<times> 'a list) list" where
  "addToGroup [] k x = [(k, [x])]"
| "addToGroup ((k', xs) # rest) k x =
     (if k' = k then (k', xs @ [x]) # rest else (k', xs) # addToGroup rest k x)"

text \<open>
  \<open>sort(d3.ascending)\<close> on dates. The comparator answers \<open>NaN\<close>, which \<open>sort\<close> takes as 0,
  when a side is an invalid date. Without an invalid date the order is ascending. With
  one and at most one other time value, all elements compare equal and the stable sort keeps
  the order. With one and two different valid dates the comparator is not consistent and
  the order is left to the implementation: \<open>implRank xs\<close> gives the place the implementation
  puts each element of \<open>xs\<close> at.
\<close>

definition sortDates ::
  "(int option list \<Rightarrow> int option \<Rightarrow> nat) \<Rightarrow> int option list \<Rightarrow> int option list" where
  "sortDates implRank xs =
     (if None \<notin> set xs then map Some (sort (map the xs))
      else if length (remdups xs) \<le> 2 then xs
      else sort_key (implRank xs) xs)"

text \<open>
  In \<open>stacked\<close>, \<open>dataByDate.get(date)\<close> is never \<open>undefined\<close>, \<open>sortedDates\<close> being the keys
  of \<open>dataByDate\<close>.
\<close>

definition trendData ::
  "(period \<Rightarrow> jsval \<Rightarrow> int option) \<Rightarrow> (int option list \<Rightarrow> int option \<Rightarrow> nat) \<Rightarrow> string
     \<Rightarrow> period \<Rightarrow> field \<Rightarrow> jsobj list \<Rightarrow> trend option" where
  "trendData floorTo implRank dateColumn per groupBy filtered =
     (if dateColumn = [] then None
      else let results = trendResults filtered
        in if length results = 0 then None
        else
          let allKeys = sort (uniq (concat (map
                 (\<lambda>r. concat (map nonEmpty (groupValues groupBy (getProp r ''analysis''))))
                 results)));
              tally = (\<lambda>v. foldl (\<lambda>counts d.
                          foldl (\<lambda>counts val. case val of
                                     None \<Rightarrow> counts
                                   | Some s \<Rightarrow> if s \<noteq> [] then bumpExisting counts s else counts)
                            counts (groupValues groupBy (getProp d ''analysis'')))
                        (map (\<lambda>key. (key, 0)) allKeys) v);
              groups = foldl (\<lambda>g d. addToGroup g (floorTo per (getProp d ''date'')) d) [] results;
              dataByDate = map (\<lambda>(date, v). (date, tally v)) groups;
              sortedDates = sortDates implRank (map fst dataByDate);
              stacked = map (\<lambda>date. case map_of dataByDate date of
                                None \<Rightarrow> [''date'' \<mapsto> EDate date]
                              | Some counts \<Rightarrow>
                                  foldl (\<lambda>entry (key, value). setMember entry key (ECount value))
                                    [''date'' \<mapsto> EDate date] counts) sortedDates;
              srs = map (\<lambda>key. (key, map (\<lambda>date.
                         (date, case map_of dataByDate date of
                                  None \<Rightarrow> 0
                                | Some counts \<Rightarrow> (case map_of counts key of None \<Rightarrow> 0 | Some c \<Rightarrow> c)))
                       sortedDates)) allKeys
          in Some \<lparr> series = srs, dates = sortedDates, keys = allKeys, stackedData = stacked \<rparr>)"

section \<open>Export path\<close>

definition analysisHeaders :: "string list" where
  "analysisHeaders = [''sentiment'', ''sentiment_score'', ''intent'', ''emotions'', ''topics'',
     ''explanation'', ''confidence'', ''redacted_excerpt'']"

definition optVal :: "('a \<Rightarrow> jsval) \<Rightarrow> 'a option \<Rightarrow> jsval" where
  "optVal f v = (case v of None \<Rightarrow> Undefined | Some x \<Rightarrow> f x)"

text \<open>\<open>res.analysis[ah]\<close> for the member names of \<open>analysisHeaders\<close>.\<close>

definition analysisMember :: "analysis \<Rightarrow> string \<Rightarrow> jsval" where
  "analysisMember a ah =
     (if ah = ''sentiment'' then optVal Str (sentiment a)
      else if ah = ''sentiment_score'' then optVal Num (sentiment_score a)
      else if ah = ''intent'' then optVal Str (intent a)
      else if ah = ''emotions'' then optVal Arr (emotions a)
      else if ah = ''topics'' then optVal Arr (topics a)
      else if ah = ''explanation'' then optVal Str (explanation a)
      else if ah = ''confidence'' then optVal Num (confidence a)
      else if ah = ''redacted_excerpt'' then optVal Str (redacted_excerpt a)
      else Undefined)"

text \<open>
  \<open>exportToCsv\<close>: the text handed to the download, \<open>None\<close> when the function returns
  before building one.
\<close>

definition exportToCsv ::
  "runtime \<Rightarrow> string list \<Rightarrow> jsobj list \<Rightarrow> (string \<times> string) list \<Rightarrow> jsdate option
     \<Rightarrow> jsdate option \<Rightarrow> string option" where
  "exportToCsv rt allHeaders analysisRes activeFilters startDate endDate =
     (let results = filteredAnalysisResults rt analysisRes activeFilters startDate endDate
      in if length results = 0 then None
         else
           let hdrs = [''rowId''] @ allHeaders @ analysisHeaders;
               rowOf = (\<lambda>res.
                  let rowData = [getProp res ''rowId''] @ map (getProp res) allHeaders
                        @ map (\<lambda>ah. if truthy (getProp res ''analysis'')
                                     then (case getProp res ''analysis'' of
                                             AnalysisV a \<Rightarrow> analysisMember a ah
                                           | _ \<Rightarrow> Undefined)
                                     else Str []) analysisHeaders
                  in join [comma] (map (escapeCsvCell rt) rowData));
               csvRows = [join [comma] hdrs] @ map rowOf results
           in Some (join [lf] csvRows))"

section \<open>Notions used to state the properties of the filter\<close>

text \<open>
  The retention rule in the words of the specification, for a filter set given as its
  (dimension, value) pairs and optional inclusive bounds in milliseconds: every pair whose
  value is neither empty nor the no-filter token \<open>all\<close> is matched exactly by the record's
  field, and with a lower (upper) bound the record has a date at or after (at or before) it.
\<close>

definition keptBySpec :: "(string \<times> string) list \<Rightarrow> int option \<Rightarrow> int option \<Rightarrow> jsobj \<Rightarrow> bool" where
  "keptBySpec pairs lo hi r =
     (list_all (\<lambda>(k, v). v = [] \<or> v = ''all'' \<or> getProp r k = Str v) pairs
      \<and> (case lo of None \<Rightarrow> True
          | Some b \<Rightarrow> (case getProp r ''date'' of DateV (Instant t) \<Rightarrow> b \<le> t | _ \<Rightarrow> False))
      \<and> (case hi of None \<Rightarrow> True
          | Some b \<Rightarrow> (case getProp r ''date'' of DateV (Instant t) \<Rightarrow> t \<le> b | _ \<Rightarrow> False)))"

text \<open>The \<open>date\<close> member of a record is a valid \<open>Date\<close> or \<open>undefined\<close> (\<open>date?: Date\<close>).\<close>

definition dateMemberOk :: "jsobj \<Rightarrow> bool" where
  "dateMemberOk r = (case getProp r ''date'' of
                       Undefined \<Rightarrow> True | DateV (Instant t) \<Rightarrow> True | _ \<Rightarrow> False)"

text \<open>
  The parts of the predicate of \<open>filteredAnalysisResults\<close> by name: a key of the filter
  object is active, a record matches it, a record fails the lower or the upper bound.
\<close>

definition activeKey :: "(string \<times> string) list \<Rightarrow> string \<Rightarrow> bool" where
  "activeKey fs key = (case map_of fs key of None \<Rightarrow> False | Some v \<Rightarrow> v \<noteq> [] \<and> v \<noteq> ''all'')"

definition keyMatches :: "(string \<times> string) list \<Rightarrow> jsobj \<Rightarrow> string \<Rightarrow> bool" where
  "keyMatches fs r key = (case map_of fs key of None \<Rightarrow> getProp r key = Undefined
                                              | Some v \<Rightarrow> getProp r key = Str v)"

definition failsLower :: "runtime \<Rightarrow> jsdate option \<Rightarrow> jsobj \<Rightarrow> bool" where
  "failsLower rt startDate r =
     (case startDate of None \<Rightarrow> False
      | Some sd \<Rightarrow> \<not> truthy (getProp r ''date'') \<or> jsLess rt (getProp r ''date'') (DateV sd))"

definition failsUpper :: "runtime \<Rightarrow> jsdate option \<Rightarrow> jsobj \<Rightarrow> bool" where
  "failsUpper rt endDate r =
     (case endDate of None \<Rightarrow> False
      | Some ed \<Rightarrow> \<not> truthy (getProp r ''date'') \<or> jsLess rt (DateV ed) (getProp r ''date''))"

section \<open>Notions used to state the properties of the counts\<close>

text \<open>
  A value is plain when it is no name of a member of \<open>Object.prototype\<close>. For plain values
  the counts are numbers: \<open>countUp\<close> is the counting, \<open>countsOf\<close> the counts after the loop
  over the records, \<open>sortByCountDesc\<close> the stable sort by descending count, and
  \<open>occurrences fld rs v\<close> says how often the value \<open>v\<close> occurs among the contributions of the
  records, every element of a topics list counting on its own.
\<close>

definition plainValue :: "string \<Rightarrow> bool" where
  "plainValue k = (k \<notin> set (''__proto__'' # prototypeFunctions))"

fun countUp :: "(string \<times> nat) list \<Rightarrow> string \<Rightarrow> (string \<times> nat) list" where
  "countUp [] k = [(k, 1)]"
| "countUp ((k', c) # rest) k = (if k' = k then (k', c + 1) # rest else (k', c) # countUp rest k)"

definition contributions :: "field \<Rightarrow> jsobj list \<Rightarrow> string list" where
  "contributions fld rs = concat (map (\<lambda>r. fieldValues fld (getProp r ''analysis'')) rs)"

definition countsOf :: "field \<Rightarrow> jsobj list \<Rightarrow> (string \<times> nat) list" where
  "countsOf fld rs = foldl countUp [] (contributions fld rs)"

definition sortByCountDesc :: "(string \<times> nat) list \<Rightarrow> (string \<times> nat) list" where
  "sortByCountDesc xs = sort_key (\<lambda>e. - int (snd e)) xs"

definition occurrences :: "field \<Rightarrow> jsobj list \<Rightarrow> string \<Rightarrow> nat" where
  "occurrences fld rs v =
     count_list (concat (map (\<lambda>r. fieldValues fld (getProp r ''analysis'')) rs)) v"

text \<open>A record that has nothing but a classification with the given topics.\<close>

definition withTopics :: "string list \<Rightarrow> jsobj" where
  "withTopics ts = [''analysis'' \<mapsto> AnalysisV (emptyAnalysis\<lparr>topics := Some ts\<rparr>)]"


section \<open>Notions used to state the properties of the topic tree\<close>

text \<open>
  \<open>stepTable\<close> is one round of the inner \<open>forEach\<close> of \<open>topicTree\<close> (the table after one
  topic of one record), \<open>countIn T v\<close> the count of the node named \<open>v\<close> in a table, and
  \<open>namesOk\<close> says that every node of a table is stored under its own name.
\<close>

definition stepTable ::
  "(string \<times> topicNode) list \<Rightarrow> string option \<Rightarrow> jsobj \<Rightarrow> string \<Rightarrow> (string \<times> topicNode) list" where
  "stepTable rootTable parentNode r topicName =
     (let root1 =
        (if map_of rootTable topicName = None then
           let created = rootTable @ [(topicName, \<lparr> name = topicName, count = 0, responses = [],
                                              subTopics = [], expanded = False \<rparr>)]
           in (case parentNode of
                 None \<Rightarrow> created
               | Some p \<Rightarrow>
                   (case map_of created p of
                      None \<Rightarrow> created
                    | Some pn \<Rightarrow>
                        if \<not> list_ex (\<lambda>st. st = topicName) (subTopics pn)
                        then updateNode created p (\<lambda>n. n\<lparr>subTopics := subTopics n @ [topicName]\<rparr>)
                        else created))
         else rootTable)
      in updateNode root1 topicName
           (\<lambda>n. n\<lparr>count := count n + 1, responses := responses n @ [r]\<rparr>))"

definition countIn :: "(string \<times> topicNode) list \<Rightarrow> string \<Rightarrow> nat option" where
  "countIn T v = map_option count (map_of T v)"

definition namesOk :: "(string \<times> topicNode) list \<Rightarrow> bool" where
  "namesOk T = list_all (\<lambda>e. name (snd e) = fst e) T"

section \<open>Notions used to state the properties of the time series\<close>

text \<open>
  A record is included when its \<open>date\<close> member and its \<open>analysis\<close> member are both truthy.
  \<open>bucketOf\<close> is the bucket of a record, \<open>valuesOf\<close> the non-empty group values of a record,
  \<open>buckets\<close> the distinct buckets of the included records in the order they first occur,
  \<open>bucketDates\<close> these as sorted by \<open>sortDates\<close>, \<open>groupKeys\<close> the distinct group values of
  the included records in sorted order, and \<open>tallyOf ... d k\<close> the number of occurrences of
  the value \<open>k\<close> among the group values of the included records that fall into the bucket
  \<open>d\<close>. \<open>entryAt ks tally d\<close> is the object with the member \<open>date\<close> and the tally of every
  key.
\<close>

definition included :: "jsobj \<Rightarrow> bool" where
  "included r = (truthy (getProp r ''date'') \<and> truthy (getProp r ''analysis''))"

definition bucketOf :: "(period \<Rightarrow> jsval \<Rightarrow> int option) \<Rightarrow> period \<Rightarrow> jsobj \<Rightarrow> int option" where
  "bucketOf floorTo per r = floorTo per (getProp r ''date'')"


definition buckets ::
  "(period \<Rightarrow> jsval \<Rightarrow> int option) \<Rightarrow> period \<Rightarrow> jsobj list \<Rightarrow> int option list" where
  "buckets floorTo per rs = uniq (map (bucketOf floorTo per) (filter included rs))"

definition bucketDates ::
  "(period \<Rightarrow> jsval \<Rightarrow> int option) \<Rightarrow> (int option list \<Rightarrow> int option \<Rightarrow> nat) \<Rightarrow> period
     \<Rightarrow> jsobj list \<Rightarrow> int option list" where
  "bucketDates floorTo implRank per rs = sortDates implRank (buckets floorTo per rs)"








text \<open>Inputs for the examples of the time series.\<close>

definition floorExample :: "period \<Rightarrow> jsval \<Rightarrow> int option" where
  "floorExample per v = (case v of DateV (Instant t) \<Rightarrow> Some (t div 86400000 * 86400000) | _ \<Rightarrow> None)"

definition datedTopics :: "int \<Rightarrow> string list \<Rightarrow> jsobj" where
  "datedTopics t ts =
     [''date'' \<mapsto> DateV (Instant t), ''analysis'' \<mapsto> AnalysisV (emptyAnalysis\<lparr>topics := Some ts\<rparr>)]"


section \<open>Properties of the CsvCodec\<close>

lemma splitLines_no_lf: "lf \<notin> set s \<Longrightarrow> splitLines s = [s]"
  by (induction s rule: splitLines.induct) auto

lemma scanLine_quoted:
  "scanLine (doubleQuotes s @ [dquote]) acc True flds = flds @ [trim (acc @ s)]"
proof (induction s arbitrary: acc)
  case Nil
  then show ?case by simp
next
  case (Cons c s)
  show ?case
  proof (cases "c = dquote")
    case True
    then show ?thesis using Cons.IH [of "acc @ [dquote]"] by simp
  next
    case False
    obtain d ds where d: "doubleQuotes s @ [dquote] = d # ds"
      by (cases "doubleQuotes s @ [dquote]") auto
    have "scanLine (c # d # ds) acc True flds = scanLine (d # ds) (acc @ [c]) True flds"
      using False by simp
    then show ?thesis using Cons.IH [of "acc @ [c]"] False d by simp
  qed
qed

lemma trim_quoted_nonempty: "trim (dquote # s @ [dquote]) \<noteq> []"
proof -
  have nws: "\<not> is_ws dquote" by (simp add: is_ws_def dquote_def)
  have "dropWhile is_ws (dquote # s @ [dquote]) = dquote # s @ [dquote]"
    using nws by simp
  moreover have "dropWhile is_ws (rev (dquote # s @ [dquote])) = rev (dquote # s @ [dquote])"
    using nws by simp
  ultimately show ?thesis by (simp add: trim_def)
qed

lemma scanLine_open_quote:
  "scanLine (dquote # doubleQuotes s @ [dquote]) [] False [] = [trim s]"
proof -
  obtain d ds where d: "doubleQuotes s @ [dquote] = d # ds"
    by (cases "doubleQuotes s @ [dquote]") auto
  have "scanLine (dquote # d # ds) [] False [] = scanLine (d # ds) [] True []"
    by simp
  then show ?thesis using scanLine_quoted [of s "[]" "[]"] d by simp
qed

lemma lf_doubleQuotes: "lf \<in> set (doubleQuotes s) \<longleftrightarrow> lf \<in> set s"
  by (induction s) (auto simp: lf_def dquote_def)

text \<open>
  C3 (as amended). A string with a comma or a double quote and no line feed, written by
  \<open>escapeCsvCell\<close> and read back by \<open>parseCsv\<close>, is the single row with the single field
  \<open>S\<close> trimmed of surrounding white space: \<open>S\<close> itself when it has none.
\<close>

theorem csv_field_roundtrip:
  assumes "comma \<in> set S \<or> dquote \<in> set S" and "lf \<notin> set S"
  shows "parseCsv (escapeCsvCell rt (Str S)) = [[trim S]]"
proof -
  let ?q = "dquote # doubleQuotes S @ [dquote]"
  have esc: "escapeCsvCell rt (Str S) = ?q"
    using assms(1) by (auto simp: escapeCsvCell_def)
  have "lf \<notin> set ?q"
    using assms(2) by (simp add: lf_doubleQuotes) (simp add: lf_def dquote_def)
  then have "splitLines ?q = [?q]" by (rule splitLines_no_lf)
  then show ?thesis
    using trim_quoted_nonempty [of "doubleQuotes S"] scanLine_open_quote [of S]
    by (simp add: esc parseCsv_def)
qed

theorem csv_field_roundtrip_witness:
  "(comma \<in> set ''a,b'' \<or> dquote \<in> set ''a,b'') \<and> lf \<notin> set ''a,b''
   \<and> parseCsv (escapeCsvCell rt0 (Str ''a,b'')) = [[''a,b'']]"
proof -
  have h1: "comma \<in> set ''a,b'' \<or> dquote \<in> set ''a,b''" by (simp add: comma_def)
  have h2: "lf \<notin> set ''a,b''" by (simp add: lf_def)
  have t: "trim ''a,b'' = ''a,b''" by (simp add: trim_def is_ws_def)
  show ?thesis using csv_field_roundtrip [OF h1 h2, of rt0] h1 h2 t by simp
qed

text \<open>
  C3 as stated fails on a string with a line feed: \<open>parseCsv\<close> splits the text into lines
  before it looks at quotes, so the quoted field comes back as two rows.
\<close>

theorem csv_field_roundtrip_counterexample:
  "(comma \<in> set [CHR ''a'', lf, CHR ''b''] \<or> dquote \<in> set [CHR ''a'', lf, CHR ''b'']
      \<or> lf \<in> set [CHR ''a'', lf, CHR ''b''])
   \<and> parseCsv (escapeCsvCell rt0 (Str [CHR ''a'', lf, CHR ''b''])) = [[''a''], [''b'']]
   \<and> parseCsv (escapeCsvCell rt0 (Str [CHR ''a'', lf, CHR ''b''])) \<noteq> [[[CHR ''a'', lf, CHR ''b'']]]"
  by (simp add: parseCsv_def escapeCsvCell_def trim_def is_ws_def lf_def cr_def dquote_def comma_def)

section \<open>Properties of the progress arithmetic\<close>

lemma bitlen_powi:
  assumes "0 < (n::int)"
  shows "(2::rat) powi (bitlen n - 1) \<le> of_int n" and "of_int n < (2::rat) powi (bitlen n)"
proof -
  have b: "2 ^ nat (bitlen n - 1) \<le> n" "n < 2 ^ nat (bitlen n)"
    using bitlen_bounds [OF assms] by auto
  have pos: "1 \<le> bitlen n" using assms by (simp add: bitlen_ge_iff_power)
  have "(of_int (2 ^ nat (bitlen n - 1)) :: rat) \<le> of_int n" using b(1) by (simp only: of_int_le_iff)
  then show "(2::rat) powi (bitlen n - 1) \<le> of_int n" using pos by (simp add: power_int_def)
  have "(of_int n :: rat) < of_int (2 ^ nat (bitlen n))" using b(2) by (simp only: of_int_less_iff)
  then show "of_int n < (2::rat) powi (bitlen n)" using pos by (simp add: power_int_def)
qed

lemma expo_bounds:
  assumes "0 < x"
  shows "2 powi (expo x) \<le> x" and "x < 2 powi (expo x + 1)"
proof -
  obtain p q where pq: "quotient_of x = (p, q)" by (cases "quotient_of x")
  have q: "0 < q" using quotient_of_denom_pos [OF pq] .
  have x: "x = of_int p / of_int q" using quotient_of_div [OF pq] .
  have p: "0 < p" using assms q x by (simp add: zero_less_divide_iff)
  let ?d = "bitlen p - bitlen q"
  have Q: "(0::rat) < of_int q" using q by simp
  have up: "x < 2 powi (?d + 1)"
  proof -
    define A :: rat where "A = 2 powi (bitlen q - 1)"
    define B :: rat where "B = 2 powi (bitlen p)"
    have A: "0 < A" and B: "0 < B" by (simp_all add: A_def B_def)
    have "of_int p < B" unfolding B_def using bitlen_powi(2) [OF p] .
    moreover have "A \<le> of_int q" unfolding A_def using bitlen_powi(1) [OF q] .
    ultimately have "of_int p * A < B * of_int q"
      using A p by (intro mult_less_le_imp_less) auto
    then have "of_int p * A / (of_int q * A) < B * of_int q / (of_int q * A)"
      using Q A by (intro divide_strict_right_mono) auto
    then have "x < B / A" using Q A by (simp add: x)
    also have "B / A = 2 powi (?d + 1)"
      unfolding A_def B_def by (simp flip: power_int_diff) (simp add: algebra_simps)
    finally show ?thesis .
  qed
  have lo: "2 powi (?d - 1) \<le> x"
  proof -
    define A :: rat where "A = 2 powi (bitlen p - 1)"
    define B :: rat where "B = 2 powi (bitlen q)"
    have A: "0 < A" and B: "0 < B" by (simp_all add: A_def B_def)
    have "A \<le> of_int p" unfolding A_def using bitlen_powi(1) [OF p] .
    moreover have "of_int q \<le> B" unfolding B_def using bitlen_powi(2) [OF q] by simp
    ultimately have "A * of_int q \<le> of_int p * B"
      using A Q p by (intro mult_mono) auto
    then have "A * of_int q / (of_int q * B) \<le> of_int p * B / (of_int q * B)"
      using Q B by (intro divide_right_mono) auto
    then have "A / B \<le> x" using Q B by (simp add: x)
    moreover have "A / B = 2 powi (?d - 1)"
      unfolding A_def B_def by (simp flip: power_int_diff) (simp add: algebra_simps)
    ultimately show ?thesis by simp
  qed
  have e: "expo x = (if 2 powi ?d \<le> x then ?d else ?d - 1)"
    by (simp add: expo_def pq Let_def)
  show "2 powi (expo x) \<le> x" using lo by (simp add: e)
  show "x < 2 powi (expo x + 1)" using up by (auto simp add: e not_le)
qed


lemma roundEven_cases: "roundEven x = \<lfloor>x\<rfloor> \<or> roundEven x = \<lfloor>x\<rfloor> + 1"
  by (simp add: roundEven_def Let_def)

lemma roundEven_mono:
  assumes "x \<le> y" shows "roundEven x \<le> roundEven y"
proof (cases "\<lfloor>x\<rfloor> = \<lfloor>y\<rfloor>")
  case True
  then show ?thesis using assms by (auto simp: roundEven_def Let_def)
next
  case False
  then have "\<lfloor>x\<rfloor> + 1 \<le> \<lfloor>y\<rfloor>" using floor_mono [OF assms] by linarith
  moreover have "roundEven x \<le> \<lfloor>x\<rfloor> + 1" using roundEven_cases [of x] by linarith
  moreover have "\<lfloor>y\<rfloor> \<le> roundEven y" using roundEven_cases [of y] by linarith
  ultimately show ?thesis by linarith
qed

lemma roundEven_of_int: "roundEven (of_int n) = n"
  by (simp add: roundEven_def)

lemma dbl_pos_eq:
  "0 < x \<Longrightarrow> dbl x = of_int (roundEven (x / 2 powi (expo x - 52))) * 2 powi (expo x - 52)"
  by (simp add: dbl_def Let_def)

lemma dbl_range:
  assumes "0 < x"
  shows "2 powi (expo x) \<le> dbl x" and "dbl x \<le> 2 powi (expo x + 1)"
proof -
  define u :: rat where "u = 2 powi (expo x - 52)"
  have u: "0 < u" by (simp add: u_def)
  have lo: "2 powi (expo x) = (2 ^ 52) * u"
    unfolding u_def by (simp add: power_int_diff)
  have hi: "2 powi (expo x + 1) = (2 ^ 53) * u"
    unfolding u_def by (simp add: power_int_diff power_int_add)
  have "(2 ^ 52) * u \<le> x" using expo_bounds(1) [OF assms] lo by simp
  then have "of_int (2 ^ 52) \<le> x / u" using u by (simp add: pos_le_divide_eq)
  then have "roundEven (of_int (2 ^ 52)) \<le> roundEven (x / u)" by (rule roundEven_mono)
  then have "(2 ^ 52 :: int) \<le> roundEven (x / u)" by (simp only: roundEven_of_int)
  then have "(of_int (2 ^ 52) :: rat) \<le> of_int (roundEven (x / u))" by (simp only: of_int_le_iff)
  then have "(2 ^ 52) * u \<le> of_int (roundEven (x / u)) * u"
    using u by (intro mult_right_mono) auto
  then show "2 powi (expo x) \<le> dbl x"
    using lo by (simp add: dbl_pos_eq [OF assms] u_def)
  have "x \<le> (2 ^ 53) * u" using expo_bounds(2) [OF assms] hi by simp
  then have "x / u \<le> of_int (2 ^ 53)" using u by (simp add: pos_divide_le_eq)
  then have "roundEven (x / u) \<le> roundEven (of_int (2 ^ 53))" by (rule roundEven_mono)
  then have "roundEven (x / u) \<le> (2 ^ 53 :: int)" by (simp only: roundEven_of_int)
  then have "(of_int (roundEven (x / u)) :: rat) \<le> of_int (2 ^ 53)" by (simp only: of_int_le_iff)
  then have "of_int (roundEven (x / u)) * u \<le> (2 ^ 53) * u"
    using u by (intro mult_right_mono) auto
  then show "dbl x \<le> 2 powi (expo x + 1)"
    using hi by (simp add: dbl_pos_eq [OF assms] u_def)
qed

lemma dbl_nonneg: "0 \<le> x \<Longrightarrow> 0 \<le> dbl x"
proof (cases "x = 0")
  case True then show ?thesis by (simp add: dbl_def)
next
  case False
  assume "0 \<le> x"
  then have "0 < x" using False by simp
  then have "2 powi (expo x) \<le> dbl x" by (rule dbl_range(1))
  moreover have "(0::rat) < 2 powi (expo x)" by simp
  ultimately show ?thesis by linarith
qed

lemma expo_mono:
  assumes "0 < x" and "x \<le> y" shows "expo x \<le> expo y"
proof -
  have y: "0 < y" using assms by simp
  have "(2::rat) powi (expo x) \<le> x" using expo_bounds(1) [OF assms(1)] .
  also have "x \<le> y" by fact
  also have "y < 2 powi (expo y + 1)" using expo_bounds(2) [OF y] .
  finally have lt: "(2::rat) powi (expo x) < 2 powi (expo y + 1)" .
  have "expo x < expo y + 1"
  proof (rule ccontr)
    assume "\<not> expo x < expo y + 1"
    then have "expo y + 1 \<le> expo x" by simp
    then have "(2::rat) powi (expo y + 1) \<le> 2 powi (expo x)"
      by (intro power_int_increasing) auto
    then show False using lt by simp
  qed
  then show ?thesis by simp
qed

lemma dbl_mono:
  assumes "0 \<le> x" and "x \<le> y" shows "dbl x \<le> dbl y"
proof (cases "x = 0")
  case True
  then show ?thesis using dbl_nonneg [of y] assms by (simp add: dbl_def)
next
  case False
  then have x: "0 < x" using assms by simp
  then have y: "0 < y" using assms by simp
  show ?thesis
  proof (cases "expo x = expo y")
    case True
    define u :: rat where "u = 2 powi (expo y - 52)"
    have u: "0 < u" by (simp add: u_def)
    have "x / u \<le> y / u" using assms(2) u by (simp add: divide_right_mono)
    then have "roundEven (x / u) \<le> roundEven (y / u)" by (rule roundEven_mono)
    then have "(of_int (roundEven (x / u)) :: rat) \<le> of_int (roundEven (y / u))"
      by (simp only: of_int_le_iff)
    then have "of_int (roundEven (x / u)) * u \<le> of_int (roundEven (y / u)) * u"
      using u by (intro mult_right_mono) auto
    then show ?thesis by (simp add: dbl_pos_eq [OF x] dbl_pos_eq [OF y] True u_def)
  next
    case False
    then have "expo x + 1 \<le> expo y" using expo_mono [OF x assms(2)] by simp
    then have "(2::rat) powi (expo x + 1) \<le> 2 powi (expo y)"
      by (intro power_int_increasing) auto
    then show ?thesis using dbl_range(2) [OF x] dbl_range(1) [OF y] by linarith
  qed
qed

lemma mathRound_mono: "x \<le> y \<Longrightarrow> mathRound x \<le> mathRound y"
  by (simp add: mathRound_def floor_mono)

lemma progressOf_mono:
  assumes "j \<le> k" shows "progressOf j n \<le> progressOf k n"
proof -
  have "(of_nat j :: rat) / of_nat n \<le> of_nat k / of_nat n"
    using assms by (simp add: divide_right_mono)
  then have "dbl (of_nat j / of_nat n) \<le> dbl (of_nat k / of_nat n)"
    by (intro dbl_mono) auto
  then have le: "dbl (of_nat j / of_nat n) * 100 \<le> dbl (of_nat k / of_nat n) * 100" by simp
  have "0 \<le> dbl (of_nat j / of_nat n) * 100"
    using dbl_nonneg [of "of_nat j / of_nat n"] by simp
  then have "dbl (dbl (of_nat j / of_nat n) * 100) \<le> dbl (dbl (of_nat k / of_nat n) * 100)"
    using le by (rule dbl_mono)
  then show ?thesis unfolding progressOf_def by (rule mathRound_mono)
qed

lemma dbl_1: "dbl 1 = 1" by code_simp
lemma dbl_100: "dbl 100 = 100" by code_simp

lemma mathRound_100: "mathRound 100 = 100" by code_simp

lemma progressOf_full: "0 < n \<Longrightarrow> progressOf n n = 100"
  by (simp add: progressOf_def dbl_1 dbl_100 mathRound_100)

lemma progress_198_199: "mathRound (dbl (dbl (198 / 199) * 100)) = 99" by code_simp

lemma progressOf_below_100:
  assumes "k < n" and "n < 200" shows "progressOf k n < 100"
proof -
  have n: "(0::rat) < of_nat n" using assms by simp
  have "(of_nat k :: rat) * 199 \<le> 198 * of_nat n"
  proof -
    have "k * 199 \<le> 198 * n" using assms by linarith
    then have "(of_nat (k * 199) :: rat) \<le> of_nat (198 * n)" by (simp only: of_nat_le_iff)
    then show ?thesis by simp
  qed
  then have le: "(of_nat k :: rat) / of_nat n \<le> 198 / 199"
    using n by (simp add: field_simps)
  then have "dbl (of_nat k / of_nat n) \<le> dbl (198 / 199)"
    by (intro dbl_mono) auto
  then have le2: "dbl (of_nat k / of_nat n) * 100 \<le> dbl (198 / 199) * 100" by simp
  have "0 \<le> dbl (of_nat k / of_nat n) * 100"
    using dbl_nonneg [of "of_nat k / of_nat n"] by simp
  then have "dbl (dbl (of_nat k / of_nat n) * 100) \<le> dbl (dbl (198 / 199) * 100)"
    using le2 by (rule dbl_mono)
  then have "progressOf k n \<le> mathRound (dbl (dbl (198 / 199) * 100))"
    unfolding progressOf_def by (rule mathRound_mono)
  then show ?thesis using progress_198_199 by simp
qed

section \<open>Properties of the ClassificationQueue\<close>

lemma analyze_client: "analyzeSurveyResponse True g v = Inr (returned g v)"
  by (simp add: returned_def analyzeSurveyResponse_def split: sum.splits)

lemma analyze_no_client: "analyzeSurveyResponse False g v = Inl ClientNotInitialized"
  by (simp add: analyzeSurveyResponse_def)

lemma processItem_client:
  "processItem rt True generate hs ti di N item (c, st) =
     Inr (Suc c, st\<lparr>analysisProgress := progressOf (Suc c) N,
                    analysisResults := analysisResults st @
                      [resultOf rt hs di item (returned (generate c) (getProp item (headerKey hs ti)))]\<rparr>)"
  by (simp add: processItem_def analyze_client resultOf_def Let_def split: option.splits)

lemma processItem_no_client:
  "processItem rt False generate hs ti di N item s = Inl ClientNotInitialized"
  by (simp add: processItem_def analyze_no_client split: prod.splits)

lemma length_mapIndexed: "length (mapIndexed f c xs) = length xs"
  by (induction xs arbitrary: c) auto

lemma nth_mapIndexed: "i < length xs \<Longrightarrow> mapIndexed f c xs ! i = f (c + i) (xs ! i)"
proof (induction xs arbitrary: c i)
  case Nil then show ?case by simp
next
  case (Cons x xs)
  then show ?case by (cases i) auto
qed

lemma mapIndexed_append:
  "mapIndexed f c (xs @ ys) = mapIndexed f c xs @ mapIndexed f (c + length xs) ys"
  by (induction xs arbitrary: c) auto

lemma processLoop_client:
  "processLoop rt True generate hs ti di N items (c, st) =
     Inr (c + length items,
          st\<lparr>analysisProgress := (if items = [] then analysisProgress st
                                   else progressOf (c + length items) N),
             analysisResults := analysisResults st @ resultsOf rt generate hs ti di c items\<rparr>)"
proof (induction items arbitrary: c st)
  case Nil
  then show ?case by (simp add: resultsOf_def)
next
  case (Cons item items)
  show ?case
    by (simp add: processItem_client Cons.IH resultsOf_def)
qed

lemma processLoop_no_client:
  "processLoop rt False generate hs ti di N (item # items) (c, st) = Inl (ClientNotInitialized, st)"
  by (simp add: processItem_no_client)

lemma resultOf_rowId: "resultOf rt hs di item an ''rowId'' = item ''rowId''"
  by (simp add: resultOf_def Let_def)

lemma assignHeaders_other:
  "k \<notin> set hs \<Longrightarrow> assignHeaders hs row i response k = response k"
  by (induction hs row i response rule: assignHeaders.induct) auto

lemma toSurveyResponse_rowId:
  "''rowId'' \<notin> set hs \<Longrightarrow> toSurveyResponse hs row index ''rowId'' = Some (Num (of_nat index + 2))"
  by (simp add: toSurveyResponse_def assignHeaders_other)


lemma processLoop_append:
  "processLoop rt hc generate hs ti di N (xs @ ys) s =
     (case processLoop rt hc generate hs ti di N xs s of
        Inl e \<Rightarrow> Inl e
      | Inr s2 \<Rightarrow> processLoop rt hc generate hs ti di N ys s2)"
  by (induction xs arbitrary: s) (auto split: sum.splits)

lemma mapIndexed_take: "mapIndexed f c (take k xs) = take k (mapIndexed f c xs)"
proof (induction xs arbitrary: c k)
  case Nil then show ?case by simp
next
  case (Cons x xs) then show ?case by (cases k) auto
qed

lemma progressAfter_client:
  assumes "1 \<le> k" and "k \<le> length queue"
  shows "progressAfter rt True generate hs ti di queue st k = Some (progressOf k (length queue))"
proof -
  have "take k queue \<noteq> []" using assms by (cases queue) auto
  moreover have "length (take k queue) = k" using assms by simp
  ultimately show ?thesis
    by (simp add: progressAfter_def processLoop_client)
qed

text \<open>
  C4 (as amended). With the client present the queue never throws, and when the \<open>k\<close>-th of
  \<open>N\<close> items completes the progress value is \<open>progressOf k N\<close>, that is
  \<open>Math.round((k / N) * 100)\<close> in double arithmetic. The value never decreases from one
  item to a later one, it is 100 when the last item has completed, and for a queue of
  fewer than 200 items it is below 100 while an item remains.
\<close>

theorem progress_run:
  assumes "1 \<le> j" and "j \<le> k" and "k \<le> length queue"
  shows "progressAfter rt True generate hs ti di queue st j = Some (progressOf j (length queue))
       \<and> progressAfter rt True generate hs ti di queue st k = Some (progressOf k (length queue))
       \<and> progressOf j (length queue) \<le> progressOf k (length queue)
       \<and> progressOf (length queue) (length queue) = 100
       \<and> (k < length queue \<and> length queue < 200 \<longrightarrow> progressOf k (length queue) < 100)"
proof -
  have j: "j \<le> length queue" using assms by simp
  have k1: "1 \<le> k" using assms by simp
  have n: "0 < length queue" using assms by linarith
  show ?thesis
    using progressAfter_client [OF assms(1) j] progressAfter_client [OF k1 assms(3)]
      progressOf_mono [OF assms(2)] progressOf_full [OF n] progressOf_below_100
    by blast
qed

lemma progressOf_1_2: "progressOf (Suc 0) 2 = 50" by code_simp
lemma progressOf_199_200: "progressOf 199 200 = 100" by code_simp

theorem progress_run_witness:
  "(1::nat) \<le> 1 \<and> (1::nat) \<le> 2 \<and> 2 \<le> length [Map.empty, Map.empty :: jsobj]
   \<and> progressAfter rt0 True (\<lambda>n v. Inr emptyAnalysis) [] 0 (- 1) [Map.empty, Map.empty] initialApp 1 = Some 50
   \<and> progressAfter rt0 True (\<lambda>n v. Inr emptyAnalysis) [] 0 (- 1) [Map.empty, Map.empty] initialApp 2 = Some 100
   \<and> (1::nat) < length [Map.empty, Map.empty :: jsobj] \<and> length [Map.empty, Map.empty :: jsobj] < 200
   \<and> progressOf 1 2 < 100"
proof -
  let ?Q = "[Map.empty, Map.empty :: jsobj]"
  have len: "length ?Q = 2" by simp
  have a: "(1::nat) \<le> 1" and b: "(1::nat) \<le> 2" and c: "2 \<le> length ?Q"
    and d: "(1::nat) \<le> length ?Q"
    by simp_all
  note A = progress_run [OF a b c, of rt0 "\<lambda>n v. Inr emptyAnalysis" "[]" 0 "- 1" initialApp,
      unfolded len]
  note B = progress_run [OF a a d, of rt0 "\<lambda>n v. Inr emptyAnalysis" "[]" 0 "- 1" initialApp,
      unfolded len]
  have p1: "progressOf 1 2 = 50" using progressOf_1_2 by simp
  have A2: "progressAfter rt0 True (\<lambda>n v. Inr emptyAnalysis) [] 0 (- 1) ?Q initialApp 2 = Some 100"
    using A by metis
  have B1: "progressAfter rt0 True (\<lambda>n v. Inr emptyAnalysis) [] 0 (- 1) ?Q initialApp 1 = Some 50"
    using B p1 by metis
  have B2: "progressOf 1 2 < 100" using B by simp
  show ?thesis using A2 B1 B2 by simp
qed

text \<open>
  C4 as stated fails on a queue of 200 items: when 199 of them are done the value is
  \<open>Math.round(99.5) = 100\<close> although one item remains.
\<close>

theorem progress_run_counterexample:
  "(case processLoop rt0 True (\<lambda>n v. Inr emptyAnalysis) [] 0 (- 1) 200
            (take 199 (replicate 200 (Map.empty :: jsobj))) (0, initialApp) of
      Inl _ \<Rightarrow> None
    | Inr (c, s) \<Rightarrow> Some (c, analysisProgress s)) = Some (199, 100)"
  by (simp add: processLoop_client progressOf_199_200)


lemma length_resultsOf: "length (resultsOf rt generate hs ti di c items) = length items"
  by (simp add: resultsOf_def length_mapIndexed)

lemma resultsOf_rowId:
  "i < length items \<Longrightarrow> (resultsOf rt generate hs ti di c items ! i) ''rowId'' = (items ! i) ''rowId''"
  by (simp add: resultsOf_def nth_mapIndexed resultOf_rowId)

lemma resultsOf_take:
  "resultsOf rt generate hs ti di c (take k items) = take k (resultsOf rt generate hs ti di c items)"
  by (simp add: resultsOf_def mapIndexed_take)

lemma toSurveyResponse_free:
  "k \<notin> set hs \<Longrightarrow> k \<noteq> ''rowId'' \<Longrightarrow> toSurveyResponse hs row i k = None"
  by (simp add: toSurveyResponse_def assignHeaders_other)

lemma resultOf_one_marker:
  assumes "item ''error'' = None" and "item ''analysis'' = None"
  shows "(resultOf rt hs di item an ''error'' = None) \<noteq> (resultOf rt hs di item an ''analysis'' = None)"
  using assms by (simp add: resultOf_def Let_def)

lemma resultOf_error:
  assumes "item ''analysis'' = None" and "aerror an = Some msg" and "msg \<noteq> []"
  shows "resultOf rt hs di item an ''error'' = Some (Str msg)
       \<and> resultOf rt hs di item an ''analysis'' = None"
  using assms by (simp add: resultOf_def Let_def)

lemma results_after_k:
  "\<exists>s. processLoop rt True generate hs ti di N (take k queue) (0, st)
           = Inr (length (take k queue), s)
       \<and> analysisResults s = analysisResults st @ take k (resultsOf rt generate hs ti di 0 queue)"
  by (simp add: processLoop_client resultsOf_take)

lemma analyzer_error_value:
  "generate v = Inl err \<Longrightarrow> \<exists>msg. aerror (returned generate v) = Some msg"
  by (simp add: returned_def analyzeSurveyResponse_def Let_def)

lemma startAnalysis_client:
  assumes "mappedTextColumn st \<noteq> []"
  shows "\<exists>st2. startAnalysis rt True generate st = Inr st2
     \<and> appState st2 = Results \<and> \<not> isAnalyzing st2
     \<and> length (analysisResults st2) = length (analysisResults st) + length (rows st)
     \<and> take (length (analysisResults st)) (analysisResults st2) = analysisResults st
     \<and> (\<forall>i < length (rows st).
           (analysisResults st2 ! (length (analysisResults st) + i)) ''rowId''
             = (dataToAnalyze st ! i) ''rowId''
         \<and> (''rowId'' \<notin> set (headers st) \<longrightarrow>
              getProp (analysisResults st2 ! (length (analysisResults st) + i)) ''rowId''
                = Num (of_nat i + 2)))"
proof -
  let ?ti = "indexOf (headers st) (mappedTextColumn st)"
  let ?di = "if mappedDateColumn st \<noteq> [] then indexOf (headers st) (mappedDateColumn st) else - 1"
  let ?rs = "resultsOf rt generate (headers st) ?ti ?di 0 (dataToAnalyze st)"
  let ?st2 = "st\<lparr>errorMsg := [], appState := Results, isAnalyzing := False,
      analysisProgress := (if dataToAnalyze st = [] then 0
                           else progressOf (length (dataToAnalyze st)) (length (dataToAnalyze st))),
      analysisResults := analysisResults st @ ?rs\<rparr>"
  have eq: "startAnalysis rt True generate st = Inr ?st2"
    using assms
    by (simp add: startAnalysis_def processAnalysisQueue_def processLoop_client Let_def
        headers_def rows_def dataToAnalyze_def)
  have len: "length (dataToAnalyze st) = length (rows st)"
    by (simp add: dataToAnalyze_def length_mapIndexed)
  have rid: "(dataToAnalyze st ! i) ''rowId'' = Some (Num (of_nat i + 2))"
    if "i < length (rows st)" and "''rowId'' \<notin> set (headers st)" for i
    using that by (simp add: dataToAnalyze_def nth_mapIndexed toSurveyResponse_rowId)
  have "\<forall>i < length (rows st).
           (analysisResults ?st2 ! (length (analysisResults st) + i)) ''rowId''
             = (dataToAnalyze st ! i) ''rowId''
         \<and> (''rowId'' \<notin> set (headers st) \<longrightarrow>
              getProp (analysisResults ?st2 ! (length (analysisResults st) + i)) ''rowId''
                = Num (of_nat i + 2))"
    using rid by (simp add: resultsOf_rowId len getProp_def)
  then show ?thesis
    using eq by (simp add: length_resultsOf len)
qed

text \<open>
  C1. The code at a CSV whose header row has a column named \<open>rowId\<close>: the loop over the
  headers overwrites \<open>rowId: index + 2\<close> with the field of that column, so the first data
  row carries the string \<open>7\<close> and not the number 2. (\<open>startAnalysis_client\<close> and
  \<open>results_after_k\<close> above are what holds: one result per row appended in input order, each
  with the \<open>rowId\<close> of its item, which is \<open>index + 2\<close> when no column has that name.)
\<close>

theorem rowId_header_collision:
  "(case startAnalysis rt0 True (\<lambda>n v. Inr emptyAnalysis)
           (initialApp\<lparr>rawCsvData := [[''rowId'', ''text''], [''7'', ''hello'']],
                       mappedTextColumn := ''text''\<rparr>) of
      Inl _ \<Rightarrow> []
    | Inr st \<Rightarrow> map (\<lambda>r. getProp r ''rowId'') (analysisResults st)) = [Str ''7'']"
  by (simp add: startAnalysis_def processAnalysisQueue_def dataToAnalyze_def headers_def rows_def
      initialApp_def toSurveyResponse_def processLoop_client resultsOf_def resultOf_def
      getProp_def cellAt_def Let_def)

text \<open>
  C9. The code at a CSV with a column named \<open>error\<close>: the result object is a copy of the
  item, so a record the analyzer classified carries both \<open>analysis\<close> and the \<open>error\<close>
  field of the row. (\<open>resultOf_one_marker\<close> above is what holds for an item with neither
  key: exactly one of the two is set.)
\<close>

theorem error_header_collision:
  "(case startAnalysis rt0 True (\<lambda>n v. Inr (emptyAnalysis\<lparr>sentiment := Some ''positive''\<rparr>))
           (initialApp\<lparr>rawCsvData := [[''text'', ''error''], [''hi'', ''none'']],
                       mappedTextColumn := ''text''\<rparr>) of
      Inl _ \<Rightarrow> []
    | Inr st \<Rightarrow> map (\<lambda>r. (getProp r ''analysis'' \<noteq> Undefined, getProp r ''error''))
                 (analysisResults st)) = [(True, Str ''none'')]"
  by (simp add: startAnalysis_def processAnalysisQueue_def dataToAnalyze_def headers_def rows_def
      initialApp_def toSurveyResponse_def processLoop_client resultsOf_def resultOf_def
      getProp_def cellAt_def Let_def returned_def analyzeSurveyResponse_def emptyAnalysis_def)

section \<open>Properties of the TemporalNormalizer\<close>

text \<open>
  The groups of a match are one or two, one or two and four digits, so the numbers they
  denote are at most 99, 99 and 9999; \<open>new Date\<close> of such numbers is always a valid date
  (for a local time within a day of UTC). Hence \<open>parseDate\<close> never reaches its third
  reading: \<open>parseDate_month_first\<close>.
\<close>

lemma digits12_Some:
  "digits12 s = Some (g, r) \<Longrightarrow> g \<noteq> [] \<and> length g \<le> 2 \<and> list_all is_digit g"
  by (induction s rule: digits12.induct) (auto split: if_splits)

lemma matchHere_Some:
  assumes "matchHere s = Some (p1, p2, p3)"
  shows "length p1 \<le> 2 \<and> list_all is_digit p1 \<and> length p2 \<le> 2 \<and> list_all is_digit p2
       \<and> length p3 = 4 \<and> list_all is_digit p3"
  using assms
  by (auto simp: matchHere_def split: option.splits list.splits if_splits dest!: digits12_Some)

lemma matchDate_Some:
  "matchDate s = Some (p1, p2, p3) \<Longrightarrow>
     length p1 \<le> 2 \<and> list_all is_digit p1 \<and> length p2 \<le> 2 \<and> list_all is_digit p2
       \<and> length p3 = 4 \<and> list_all is_digit p3"
proof (induction s)
  case Nil
  then show ?case by simp
next
  case (Cons c s)
  then show ?case
    by (cases "matchHere (c # s)") (auto dest: matchHere_Some)
qed

lemma foldl_digits_bounds:
  "list_all is_digit ds \<Longrightarrow> 0 \<le> n \<Longrightarrow>
     0 \<le> foldl (\<lambda>n c. 10 * n + (of_char c - 48)) (n::int) ds
   \<and> foldl (\<lambda>n c. 10 * n + (of_char c - 48)) n ds < (n + 1) * 10 ^ length ds"
proof (induction ds arbitrary: n)
  case Nil
  then show ?case by simp
next
  case (Cons c ds)
  have "48 \<le> (of_char c :: nat) \<and> (of_char c :: nat) \<le> 57"
    using Cons.prems(1) by (simp add: is_digit_def)
  then have "48 \<le> int (of_char c) \<and> int (of_char c) \<le> 57" by linarith
  then have d: "48 \<le> (of_char c :: int)" "(of_char c :: int) \<le> 57"
    by (simp_all only: of_nat_of_char)
  let ?m = "10 * n + (of_char c - 48)"
  have m0: "0 \<le> ?m" using d Cons.prems(2) by simp
  have m1: "?m + 1 \<le> (n + 1) * 10" using d by simp
  have IH: "0 \<le> foldl (\<lambda>n c. 10 * n + (of_char c - 48)) ?m ds
       \<and> foldl (\<lambda>n c. 10 * n + (of_char c - 48)) ?m ds < (?m + 1) * 10 ^ length ds"
    using Cons.IH [of ?m] Cons.prems(1) m0 by simp
  have le: "(?m + 1) * 10 ^ length ds \<le> ((n + 1) * 10) * 10 ^ length ds"
    using m1 by (intro mult_right_mono) auto
  have f: "foldl (\<lambda>n c. 10 * n + (of_char c - 48)) n (c # ds)
         = foldl (\<lambda>n c. 10 * n + (of_char c - 48)) ?m ds"
    by simp
  have e: "(n + 1) * 10 ^ length (c # ds) = ((n + 1) * 10) * 10 ^ length ds" by simp
  have IH1: "0 \<le> foldl (\<lambda>n c. 10 * n + (of_char c - 48)) ?m ds" using IH by blast
  have IH2: "foldl (\<lambda>n c. 10 * n + (of_char c - 48)) ?m ds < (?m + 1) * 10 ^ length ds"
    using IH by blast
  have "foldl (\<lambda>n c. 10 * n + (of_char c - 48)) ?m ds < ((n + 1) * 10) * 10 ^ length ds"
    using IH2 le by (rule less_le_trans)
  then show ?case unfolding f e using IH1 by blast
qed

lemma parseInt_bounds:
  "list_all is_digit ds \<Longrightarrow> 0 \<le> parseInt ds \<and> parseInt ds < 10 ^ length ds"
  using foldl_digits_bounds [of ds 0] by (simp add: parseInt_def)

lemma parseInt_le_99:
  assumes "list_all is_digit ds" and "length ds \<le> 2"
  shows "0 \<le> parseInt ds \<and> parseInt ds \<le> 99"
proof -
  have "(10::int) ^ length ds \<le> 10 ^ 2" using assms(2) by (intro power_increasing) auto
  then show ?thesis using parseInt_bounds [OF assms(1)] by simp
qed

lemma parseInt_le_9999:
  assumes "list_all is_digit ds" and "length ds = 4"
  shows "0 \<le> parseInt ds \<and> parseInt ds \<le> 9999"
  using parseInt_bounds [OF assms(1)] assms(2) by simp

lemma monthStart_bounds:
  assumes "0 \<le> mn" and "mn < 12"
  shows "0 \<le> monthStart y mn \<and> monthStart y mn \<le> 335"
proof -
  let ?L = "[0, 31, 59, 90, 120, 151, 181, 212, 243, 273, 304, 334] :: int list"
  define v :: int where "v = ?L ! nat mn"
  define w :: int where "w = (if isLeapYear y \<and> 2 \<le> mn then 1 else 0)"
  have m: "monthStart y mn = v + w" unfolding monthStart_def v_def w_def by (rule refl)
  have "nat mn < length ?L" using assms by simp
  then have "?L ! nat mn \<in> set ?L" by (rule nth_mem)
  then have "v \<in> set ?L" by (simp only: v_def)
  then have v: "0 \<le> v" "v \<le> 334" by auto
  have w: "0 \<le> w" "w \<le> 1" by (simp_all add: w_def)
  have "0 \<le> v + w" using v w by linarith
  moreover have "v + w \<le> 335" using v w by linarith
  ultimately show ?thesis unfolding m by blast
qed

lemma dayFromYear_bounds:
  assumes "-1 \<le> y" and "y \<le> 10008"
  shows "-730000 \<le> dayFromYear y \<and> dayFromYear y \<le> 2940000"
proof -
  define a where "a = (y - 1969) div 4"
  define b where "b = (y - 1901) div 100"
  define c where "c = (y - 1601) div 400"
  have a1: "(- 1970) div 4 \<le> a" unfolding a_def using assms by (intro zdiv_mono1) auto
  have a2: "a \<le> 8039 div 4" unfolding a_def using assms by (intro zdiv_mono1) auto
  have b1: "(- 1902) div 100 \<le> b" unfolding b_def using assms by (intro zdiv_mono1) auto
  have b2: "b \<le> 8107 div 100" unfolding b_def using assms by (intro zdiv_mono1) auto
  have c1: "(- 1602) div 400 \<le> c" unfolding c_def using assms by (intro zdiv_mono1) auto
  have c2: "c \<le> 8407 div 400" unfolding c_def using assms by (intro zdiv_mono1) auto
  have a1': "- 493 \<le> a" using a1 by simp
  have a2': "a \<le> 2009" using a2 by simp
  have b1': "- 20 \<le> b" using b1 by simp
  have b2': "b \<le> 81" using b2 by simp
  have c1': "- 5 \<le> c" using c1 by simp
  have c2': "c \<le> 21" using c2 by simp
  have d: "dayFromYear y = 365 * y - 719050 + a - b + c"
    unfolding dayFromYear_def a_def b_def c_def by simp
  have lo: "- 730000 \<le> 365 * y - 719050 + a - b + c"
    using a1' b2' c1' assms(1) by linarith
  have hi: "365 * y - 719050 + a - b + c \<le> 2940000"
    using a2' b1' c2' assms(2) by linarith
  show ?thesis unfolding d using lo hi by blast
qed

lemma makeDay_bounds:
  assumes "0 \<le> yr" "yr \<le> 9999" "-1 \<le> m" "m \<le> 98" "0 \<le> d" "d \<le> 99"
  shows "\<bar>makeDay yr m d\<bar> \<le> 3000000"
proof -
  have q: "-1 \<le> m div 12" "m div 12 \<le> 8" using assms by linarith+
  have r: "0 \<le> m mod 12" "m mod 12 < 12" by simp_all
  have y: "-1 \<le> yr + m div 12" "yr + m div 12 \<le> 10008" using assms q by linarith+
  note D = dayFromYear_bounds [OF y]
  note M = monthStart_bounds [OF r, of "yr + m div 12"]
  have D1: "- 730000 \<le> dayFromYear (yr + m div 12)" using D by blast
  have D2: "dayFromYear (yr + m div 12) \<le> 2940000" using D by blast
  have M1: "0 \<le> monthStart (yr + m div 12) (m mod 12)" using M by blast
  have M2: "monthStart (yr + m div 12) (m mod 12) \<le> 335" using M by blast
  show ?thesis
    unfolding makeDay_def Let_def using D1 D2 M1 M2 assms(5,6) by linarith
qed

lemma newDate_valid:
  assumes "\<forall>t. \<bar>utc rt t - t\<bar> \<le> msPerDay"
    and "0 \<le> y" "y \<le> 9999" "-1 \<le> m" "m \<le> 98" "0 \<le> d" "d \<le> 99"
  shows "newDate rt y m d \<noteq> InvalidDate"
proof -
  define yr where "yr = (if 0 \<le> y \<and> y \<le> 99 then 1900 + y else y)"
  have yr: "0 \<le> yr" "yr \<le> 9999" using assms by (auto simp: yr_def)
  define t where "t = makeDay yr m d * msPerDay"
  have "\<bar>makeDay yr m d\<bar> \<le> 3000000" using makeDay_bounds [OF yr assms(4-7)] .
  then have t: "\<bar>t\<bar> \<le> 259200000000000" by (simp add: t_def msPerDay_def abs_mult)
  have "\<bar>utc rt t - t\<bar> \<le> 86400000" using assms(1) by (simp add: msPerDay_def)
  then have "\<bar>utc rt t\<bar> \<le> 8640000000000000" using t by linarith
  then show ?thesis by (simp add: newDate_def yr_def t_def timeClip_def Let_def)
qed

lemma parseDate_month_first:
  assumes "\<forall>t. \<bar>utc rt t - t\<bar> \<le> msPerDay"
  shows "parseDate rt (Str s) =
     (if s = [] then Undefined
      else if dateParse rt s \<noteq> InvalidDate then DateV (dateParse rt s)
      else case matchDate s of
             None \<Rightarrow> Undefined
           | Some (p1, p2, p3) \<Rightarrow> DateV (newDate rt (parseInt p3) (parseInt p1 - 1) (parseInt p2)))"
proof (cases "matchDate s")
  case None
  then show ?thesis by (simp add: Let_def)
next
  case (Some m)
  obtain p1 p2 p3 where m: "m = (p1, p2, p3)" by (cases m)
  note P = matchDate_Some [OF Some [unfolded m]]
  have a: "0 \<le> parseInt p1 \<and> parseInt p1 \<le> 99" using P by (intro parseInt_le_99) auto
  have b: "0 \<le> parseInt p2 \<and> parseInt p2 \<le> 99" using P by (intro parseInt_le_99) auto
  have c: "0 \<le> parseInt p3 \<and> parseInt p3 \<le> 9999" using P by (intro parseInt_le_9999) auto
  have "newDate rt (parseInt p3) (parseInt p1 - 1) (parseInt p2) \<noteq> InvalidDate"
    using a b c by (intro newDate_valid [OF assms]) auto
  then show ?thesis using Some m by (simp add: Let_def)
qed

text \<open>
  C8. The code at \<open>25/12/2024\<close> where the general parse fails (local time = UTC): the
  month/day/year reading is accepted although 25 is no month, because \<open>new Date(2024, 24, 12)\<close>
  is a valid date, 12 January 2026 (1768176000000 ms); the day/month/year reading,
  25 December 2024 (1735084800000 ms), is not the one returned.
\<close>

theorem parseDate_day_first:
  "parseDate rt0 (Str ''25/12/2024'') = DateV (Instant 1768176000000)
   \<and> newDate rt0 2024 (12 - 1) 25 = Instant 1735084800000"
  by (simp add: rt0_def matchHere_def is_digit_def is_sep_def parseInt_def newDate_def
      makeDay_def dayFromYear_def monthStart_def isLeapYear_def msPerDay_def timeClip_def)

section \<open>Properties of the FilterEngine\<close>

lemma uniqFrom_distinct:
  "distinct xs \<Longrightarrow> set xs \<inter> set seen = {} \<Longrightarrow> uniqFrom seen xs = xs"
  by (induction xs arbitrary: seen) auto

lemma uniq_distinct: "distinct xs \<Longrightarrow> uniq xs = xs"
  by (simp add: uniq_def uniqFrom_distinct)

lemma dimension_match:
  assumes "distinct (map fst fs)"
  shows "list_all (keyMatches fs r) (filter (activeKey fs) (map fst fs))
       = list_all (\<lambda>(k, v). v = [] \<or> v = ''all'' \<or> getProp r k = Str v) fs"
proof -
  have m: "map_of fs (fst e) = Some (snd e)" if e: "e \<in> set fs" for e
  proof -
    have "(fst e, snd e) \<in> set fs" using e by simp
    then show ?thesis using assms by (simp only: map_of_eq_Some_iff)
  qed
  have "list_all (keyMatches fs r) (filter (activeKey fs) (map fst fs))
        = (\<forall>e \<in> set fs. activeKey fs (fst e) \<longrightarrow> keyMatches fs r (fst e))"
    by (auto simp: list_all_iff)
  also have "\<dots> = (\<forall>e \<in> set fs. snd e = [] \<or> snd e = ''all'' \<or> getProp r (fst e) = Str (snd e))"
  proof (rule ball_cong [OF refl])
    fix e assume "e \<in> set fs"
    then have "map_of fs (fst e) = Some (snd e)" by (rule m)
    then show "(activeKey fs (fst e) \<longrightarrow> keyMatches fs r (fst e))
        = (snd e = [] \<or> snd e = ''all'' \<or> getProp r (fst e) = Str (snd e))"
      by (auto simp: activeKey_def keyMatches_def)
  qed
  also have "\<dots> = list_all (\<lambda>(k, v). v = [] \<or> v = ''all'' \<or> getProp r k = Str v) fs"
    by (simp add: list_all_iff case_prod_beta)
  finally show ?thesis .
qed

lemma jsLess_dates:
  "jsLess rt (DateV (Instant a)) (DateV (Instant b)) = (a < b)"
  by (simp add: jsLess_def)

lemma failsLower_spec:
  assumes "dateMemberOk r"
  shows "failsLower rt (map_option Instant lo) r
       = (\<not> (case lo of None \<Rightarrow> True
              | Some b \<Rightarrow> (case getProp r ''date'' of DateV (Instant t) \<Rightarrow> b \<le> t | _ \<Rightarrow> False)))"
proof (cases lo)
  case None
  then show ?thesis by (simp add: failsLower_def)
next
  case (Some b)
  show ?thesis
  proof (cases "getProp r ''date''")
    case (DateV d)
    then show ?thesis using assms Some
      by (cases d) (auto simp: failsLower_def dateMemberOk_def jsLess_dates)
  qed (use assms Some in \<open>simp_all add: failsLower_def dateMemberOk_def\<close>)
qed

lemma failsUpper_spec:
  assumes "dateMemberOk r"
  shows "failsUpper rt (map_option Instant hi) r
       = (\<not> (case hi of None \<Rightarrow> True
              | Some b \<Rightarrow> (case getProp r ''date'' of DateV (Instant t) \<Rightarrow> t \<le> b | _ \<Rightarrow> False)))"
proof (cases hi)
  case None
  then show ?thesis by (simp add: failsUpper_def)
next
  case (Some b)
  show ?thesis
  proof (cases "getProp r ''date''")
    case (DateV d)
    then show ?thesis using assms Some
      by (cases d) (auto simp: failsUpper_def dateMemberOk_def jsLess_dates)
  qed (use assms Some in \<open>simp_all add: failsUpper_def dateMemberOk_def\<close>)
qed

lemma filtered_unfold:
  "filteredAnalysisResults rt rs fs sd ed =
     (let filterKeys = filter (activeKey fs) (uniq (map fst fs))
      in if filterKeys = [] \<and> sd = None \<and> ed = None then rs
         else filter (\<lambda>r. list_all (keyMatches fs r) filterKeys
                          \<and> \<not> failsLower rt sd r \<and> \<not> failsUpper rt ed r) rs)"
proof -
  have a: "(\<lambda>key. case map_of fs key of None \<Rightarrow> False | Some v \<Rightarrow> v \<noteq> [] \<and> v \<noteq> ''all'') = activeKey fs"
    by (rule ext) (simp add: activeKey_def)
  have k: "(\<lambda>key. case map_of fs key of None \<Rightarrow> getProp r key = Undefined
                    | Some v \<Rightarrow> getProp r key = Str v) = keyMatches fs r" for r
    by (rule ext) (simp add: keyMatches_def)
  show ?thesis
    unfolding filteredAnalysisResults_def a k failsLower_def [symmetric] failsUpper_def [symmetric]
    apply (simp add: Let_def)
    apply (rule impI)
    apply (rule filter_cong [OF refl])
    apply blast
    done
qed

text \<open>
  What holds of the filter on records typed as \<open>AnalysisResult\<close> declares them: for a filter
  object with distinct keys, records whose \<open>date\<close> member is a valid date or \<open>undefined\<close>, and
  bounds that are valid dates or absent, the filter keeps exactly the records the retention
  rule of the specification keeps, in their order.
\<close>

lemma filter_retains:
  assumes "distinct (map fst fs)" and "list_all dateMemberOk rs"
  shows "filteredAnalysisResults rt rs fs (map_option Instant lo) (map_option Instant hi)
           = filter (keptBySpec fs lo hi) rs"
proof -
  let ?keys = "filter (activeKey fs) (map fst fs)"
  have same: "(list_all (keyMatches fs r) ?keys
                \<and> \<not> failsLower rt (map_option Instant lo) r
                \<and> \<not> failsUpper rt (map_option Instant hi) r) = keptBySpec fs lo hi r"
    if "r \<in> set rs" for r
  proof -
    have ok: "dateMemberOk r" using that assms(2) by (simp add: list_all_iff)
    show ?thesis
      unfolding dimension_match [OF assms(1)] failsLower_spec [OF ok] failsUpper_spec [OF ok]
        keptBySpec_def
      by simp
  qed
  have filt: "filter (\<lambda>r. list_all (keyMatches fs r) ?keys
                \<and> \<not> failsLower rt (map_option Instant lo) r
                \<and> \<not> failsUpper rt (map_option Instant hi) r) rs = filter (keptBySpec fs lo hi) rs"
    by (rule filter_cong [OF refl]) (rule same)
  show ?thesis
  proof (cases "?keys = [] \<and> lo = None \<and> hi = None")
    case True
    have "keptBySpec fs lo hi r" if "r \<in> set rs" for r
      using same [OF that] True by (simp add: failsLower_def failsUpper_def)
    then have "filter (keptBySpec fs lo hi) rs = rs" by simp
    then show ?thesis using True
      by (simp add: filtered_unfold uniq_distinct [OF assms(1)])
  next
    case False
    then show ?thesis using filt
      by (auto simp add: filtered_unfold uniq_distinct [OF assms(1)] Let_def)
  qed
qed

text \<open>
  C7. The code at a CSV with a column named \<open>date\<close> and no date column mapped, under a lower
  bound of 1 January 1970: the result object is a copy of the item, so its \<open>date\<close> member is
  the string \<open>soon\<close> of the row; the string is truthy and its comparison with the bound is
  false (\<open>NaN\<close>), so the filter keeps the record, which has no date and which the retention
  rule of the specification drops.
\<close>

theorem date_header_collision:
  "(case startAnalysis rt0 True (\<lambda>n v. Inr emptyAnalysis)
           (initialApp\<lparr>rawCsvData := [[''text'', ''date''], [''hi'', ''soon'']],
                       mappedTextColumn := ''text''\<rparr>) of
      Inl _ \<Rightarrow> []
    | Inr st \<Rightarrow> map (\<lambda>r. (getProp r ''date'', keptBySpec [] (Some 0) None r))
                 (filteredAnalysisResults rt0 (analysisResults st) [] (Some (Instant 0)) None))
   = [(Str ''soon'', False)]"
  by (simp add: startAnalysis_def processAnalysisQueue_def dataToAnalyze_def headers_def rows_def
      initialApp_def toSurveyResponse_def processLoop_client resultsOf_def resultOf_def
      getProp_def cellAt_def Let_def filteredAnalysisResults_def uniq_def jsLess_def rt0_def
      keptBySpec_def)

theorem date_header_collision_witness:
  "map fst
     (case startAnalysis rt0 True (\<lambda>n v. Inr emptyAnalysis)
             (initialApp\<lparr>rawCsvData := [[''text'', ''date''], [''hi'', ''soon'']],
                         mappedTextColumn := ''text''\<rparr>) of
        Inl _ \<Rightarrow> []
      | Inr st \<Rightarrow> map (\<lambda>r. (getProp r ''date'', keptBySpec [] (Some 0) None r))
                   (filteredAnalysisResults rt0 (analysisResults st) [] (Some (Instant 0)) None))
   = [Str ''soon'']"
  by (simp only: date_header_collision list.map fst_conv)

section \<open>Properties of the AggregationEngine\<close>

text \<open>
  What the counts of \<open>topicTree\<close> are: the count of a node, at the root level or not, is
  the number of occurrences of its name in the topic lists of all records, at any position
  (\<open>topicTree_counts\<close>), for topics that are not named like an inherited member of the
  table.
\<close>

lemma walkTopics_step:
  "walkTopics T p r (t # rest) = walkTopics (stepTable T p r t) (Some t) r rest"
  by (simp add: stepTable_def Let_def)

lemma updateNode_map_of:
  "map_of (updateNode T k f) v = (if v = k then map_option f (map_of T k) else map_of T v)"
  by (induction T k f rule: updateNode.induct) auto

lemma countIn_updateNode_same:
  "(\<And>n. count (f n) = count n) \<Longrightarrow> countIn (updateNode T k f) v = countIn T v"
  by (cases "map_of T k") (auto simp: countIn_def updateNode_map_of)

lemma countIn_snoc:
  "map_of T k = None \<Longrightarrow>
     countIn (T @ [(k, n)]) v = (if v = k then Some (count n) else countIn T v)"
  by (auto simp: countIn_def map_add_def split: option.splits)

lemma countIn_stepTable:
  "countIn (stepTable T p r t) v =
     (if v = t then Some (case countIn T t of None \<Rightarrow> 1 | Some m \<Rightarrow> m + 1) else countIn T v)"
proof (cases "map_of T t")
  case None
  define node0 where "node0 = \<lparr> name = t, count = 0, responses = [], subTopics = [], expanded = False \<rparr>"
  define created where "created = T @ [(t, node0)]"
  define root1 where "root1 =
     (case p of None \<Rightarrow> created
      | Some q \<Rightarrow> (case map_of created q of None \<Rightarrow> created
          | Some pn \<Rightarrow> if \<not> list_ex (\<lambda>st. st = t) (subTopics pn)
                       then updateNode created q (\<lambda>n. n\<lparr>subTopics := subTopics n @ [t]\<rparr>)
                       else created))"
  have c: "countIn created v = (if v = t then Some 0 else countIn T v)" for v
    unfolding created_def using countIn_snoc [OF None, of node0 v] by (simp add: node0_def)
  have r1: "countIn root1 v = countIn created v" for v
    unfolding root1_def by (auto simp: countIn_updateNode_same split: option.splits)
  have st: "stepTable T p r t = updateNode root1 t
           (\<lambda>n. n\<lparr>count := count n + 1, responses := responses n @ [r]\<rparr>)"
    using None unfolding stepTable_def root1_def created_def node0_def Let_def by simp
  have "countIn T t = None" using None by (simp add: countIn_def)
  moreover have "countIn (stepTable T p r t) v
      = (if v = t then map_option (\<lambda>m. m + 1) (countIn root1 t) else countIn root1 v)"
    unfolding st countIn_def updateNode_map_of by (simp add: option.map_comp comp_def)
  ultimately show ?thesis by (simp add: r1 c)
next
  case (Some n)
  have st: "stepTable T p r t = updateNode T t
           (\<lambda>n. n\<lparr>count := count n + 1, responses := responses n @ [r]\<rparr>)"
    using Some by (simp add: stepTable_def Let_def)
  show ?thesis unfolding st countIn_def updateNode_map_of using Some by simp
qed

lemma walkTopics_countIn:
  "countIn (walkTopics T p r ts) v =
     (case countIn T v of
        None \<Rightarrow> if count_list ts v = 0 then None else Some (count_list ts v)
      | Some m \<Rightarrow> Some (m + count_list ts v))"
proof (induction ts arbitrary: T p)
  case Nil
  then show ?case by (simp split: option.splits)
next
  case (Cons t ts)
  show ?case
    unfolding walkTopics_step Cons.IH countIn_stepTable
    by (auto split: option.splits)
qed

lemma namesOk_updateNode:
  "(\<And>n. name (f n) = name n) \<Longrightarrow> namesOk T \<Longrightarrow> namesOk (updateNode T k f)"
  by (induction T k f rule: updateNode.induct) (auto simp: namesOk_def)

lemma namesOk_stepTable: "namesOk T \<Longrightarrow> namesOk (stepTable T p r t)"
proof -
  assume ok: "namesOk T"
  define node0 where "node0 = \<lparr> name = t, count = 0, responses = [], subTopics = [], expanded = False \<rparr>"
  have c: "namesOk (T @ [(t, node0)])" using ok by (simp add: namesOk_def node0_def)
  have u: "namesOk (updateNode (T @ [(t, node0)]) q (\<lambda>n. n\<lparr>subTopics := subTopics n @ [t]\<rparr>))" for q
    using c by (intro namesOk_updateNode) auto
  show ?thesis
    unfolding stepTable_def Let_def node0_def [symmetric]
    using ok c u by (intro namesOk_updateNode) (auto split: option.splits)
qed

lemma namesOk_walkTopics: "namesOk T \<Longrightarrow> namesOk (walkTopics T p r ts)"
proof (induction ts arbitrary: T p)
  case Nil
  then show ?case by simp
next
  case (Cons t ts)
  show ?case unfolding walkTopics_step
    by (rule Cons.IH) (rule namesOk_stepTable [OF Cons.prems])
qed

lemma buildRoot_body:
  "(case getProp r ''analysis'' of
      AnalysisV a \<Rightarrow> (case topics a of None \<Rightarrow> T
                       | Some ts \<Rightarrow> if length ts = 0 then T else walkTopics T None r ts)
    | _ \<Rightarrow> T)
   = walkTopics T None r (fieldValues Topics (getProp r ''analysis''))"
  by (cases "getProp r ''analysis''")
     (auto simp: fieldValues_def split: option.splits)

lemma buildRoot_foldl:
  "buildRoot rs = foldl (\<lambda>T r. walkTopics T None r (fieldValues Topics (getProp r ''analysis''))) [] rs"
  unfolding buildRoot_def buildRoot_body ..

lemma foldl_walk_countIn:
  "countIn (foldl (\<lambda>T r. walkTopics T None r (g r)) T rs) v =
     (case countIn T v of
        None \<Rightarrow> if count_list (concat (map g rs)) v = 0 then None
                else Some (count_list (concat (map g rs)) v)
      | Some m \<Rightarrow> Some (m + count_list (concat (map g rs)) v))"
  by (induction rs arbitrary: T) (auto simp: walkTopics_countIn split: option.splits)

lemma foldl_walk_namesOk:
  "namesOk T \<Longrightarrow> namesOk (foldl (\<lambda>T r. walkTopics T None r (g r)) T rs)"
  by (induction rs arbitrary: T) (auto simp: namesOk_walkTopics)

lemma buildRoot_countIn:
  "countIn (buildRoot rs) v
     = (if occurrences Topics rs v = 0 then None else Some (occurrences Topics rs v))"
proof -
  have "countIn [] v = None" by (simp add: countIn_def)
  then show ?thesis
    by (simp add: buildRoot_foldl foldl_walk_countIn occurrences_def)
qed

lemma buildRoot_namesOk: "namesOk (buildRoot rs)"
  unfolding buildRoot_foldl by (rule foldl_walk_namesOk) (simp add: namesOk_def)

lemma namesOk_map_of: "namesOk T \<Longrightarrow> map_of T k = Some n \<Longrightarrow> name n = k"
  by (induction T) (auto simp: namesOk_def split: if_splits)

lemma topicTree_counts:
  assumes "topicTree rs = Inr nodes" and "n \<in> set nodes"
  shows "count n = occurrences Topics rs (name n)"
proof -
  obtain ts where nodes: "nodes = sort_key (\<lambda>n. - int (count n))
       (List.map_filter (map_of (buildRoot rs)) (uniq (concat (map nonEmpty ts))))"
    using assms(1) by (auto simp: topicTree_def Let_def split: sum.splits)
  then obtain k where k: "map_of (buildRoot rs) k = Some n"
    using assms(2) by (auto simp: List.map_filter_def)
  have nm: "name n = k" using namesOk_map_of [OF buildRoot_namesOk k] .
  have "countIn (buildRoot rs) k = Some (count n)" using k by (simp add: countIn_def)
  then show ?thesis using buildRoot_countIn [of rs k] nm by (simp split: if_splits)
qed

text \<open>
  C2. The code at two records with topics \<open>[Pricing & Offers, Hidden charges]\<close> and
  \<open>[Hidden charges]\<close>: the root-level node \<open>Hidden charges\<close> has count 2, although one
  record has it as first topic, and the root-level counts sum to 3 for 2 records.
\<close>

theorem topic_count_all_levels:
  "(case topicTree
      [[''analysis'' \<mapsto> AnalysisV (emptyAnalysis\<lparr>topics := Some [''Pricing & Offers'', ''Hidden charges'']\<rparr>)],
       [''analysis'' \<mapsto> AnalysisV (emptyAnalysis\<lparr>topics := Some [''Hidden charges'']\<rparr>)]] of
      Inl _ \<Rightarrow> []
    | Inr nodes \<Rightarrow> map (\<lambda>n. (name n, count n)) nodes)
   = [(''Hidden charges'', 2), (''Pricing & Offers'', 1)]"
  by (simp add: topicTree_def buildRoot_def getProp_def firstTopic_def emptyAnalysis_def
      uniq_def nonEmpty_def List.map_filter_def Let_def)



lemma uniqFrom_set: "set (uniqFrom seen xs) = set xs - set seen"
  by (induction xs arbitrary: seen) auto

lemma uniqFrom_is_distinct: "distinct (uniqFrom seen xs)"
  by (induction xs arbitrary: seen) (auto simp: uniqFrom_set)



















lemma buckets_set: "set (buckets fl p rs) = bucketOf fl p ` set (filter included rs)"
  by (simp add: buckets_def uniq_def uniqFrom_set)








text \<open>
  When every included record has a valid bucket, the dates of the result are ascending.
\<close>

lemma bucketDates_ascending:
  assumes "None \<notin> bucketOf fl p ` set (filter included rs)"
  shows "bucketDates fl ir p rs
           = map Some (sort (remdups (map (\<lambda>r. the (bucketOf fl p r)) (filter included rs))))"
proof -
  have n: "None \<notin> set (buckets fl p rs)" using assms by (simp add: buckets_set)
  have "sort (map the (buckets fl p rs))
          = sort (remdups (map (\<lambda>r. the (bucketOf fl p r)) (filter included rs)))"
  proof (rule sorted_distinct_set_unique)
    show "sorted (sort (map the (buckets fl p rs)))" by simp
    show "sorted (sort (remdups (map (\<lambda>r. the (bucketOf fl p r)) (filter included rs))))" by simp
    have "x = y" if "x \<in> set (buckets fl p rs)" and "y \<in> set (buckets fl p rs)"
      and "the x = the y" for x y
      using that n by (metis option.collapse)
    then have "inj_on the (set (buckets fl p rs))"
      by (auto simp: inj_on_def)
    then show "distinct (sort (map the (buckets fl p rs)))"
      by (simp add: distinct_map buckets_def uniq_def uniqFrom_is_distinct)
    show "distinct (sort (remdups (map (\<lambda>r. the (bucketOf fl p r)) (filter included rs))))"
      by simp
    show "set (sort (map the (buckets fl p rs)))
            = set (sort (remdups (map (\<lambda>r. the (bucketOf fl p r)) (filter included rs))))"
      by (simp add: buckets_set image_image)
  qed
  with n show ?thesis by (simp add: bucketDates_def sortDates_def)
qed




text \<open>
  A record whose \<open>analysis\<close> member is the text of a CSV column of that name (its
  classification failed) and whose \<open>date\<close> member is a date is included: it adds its bucket
  to the dates and no value to the tallies.
\<close>

lemma trend_analysis_column:
  "map_option (\<lambda>t. (dates t, keys t, series t))
     (trendData floorExample (\<lambda>xs x. 0) ''when'' Day Sentiment
        [[''date'' \<mapsto> DateV (Instant 0), ''analysis'' \<mapsto> Str ''n/a'', ''error'' \<mapsto> Str ''failed'']])
   = Some ([Some 0], [], [])"
  by (simp add: trendData_def trendResults_def getProp_def groupValues_def nonEmpty_def uniq_def
      floorExample_def sortDates_def)

text \<open>
  A topic named \<open>date\<close> takes the place of the date in the entry of \<open>stackedData\<close>.
\<close>

lemma trend_key_named_date:
  "map_option (\<lambda>t. map (\<lambda>e. e ''date'') (stackedData t))
     (trendData floorExample (\<lambda>xs x. 0) ''when'' Day Topics [datedTopics 0 [''date'']])
   = Some [Some (ECount 1)]"
  by (simp add: trendData_def trendResults_def getProp_def groupValues_def nonEmpty_def uniq_def
      floorExample_def sortDates_def datedTopics_def emptyAnalysis_def setMember_def)

text \<open>
  A record whose \<open>date\<close> member is the text of a CSV column of that name is included as
  well; its bucket is the invalid date when the text is no number.
\<close>

lemma trend_date_column:
  "map_option (\<lambda>t. (dates t, keys t, series t))
     (trendData floorExample ir ''when'' Day Topics
        [[''date'' \<mapsto> Str ''soon'',
          ''analysis'' \<mapsto> AnalysisV (emptyAnalysis\<lparr>topics := Some [''a'']\<rparr>)]])
   = Some ([None], [''a''], [(''a'', [(None, 1)])])"
  by (simp add: trendData_def trendResults_def getProp_def groupValues_def nonEmpty_def uniq_def
      floorExample_def sortDates_def emptyAnalysis_def)

section \<open>Properties of the export path\<close>

text \<open>
  C10. \<open>exportToCsv\<close> produces no text exactly when the filtered record set is empty.
\<close>

theorem export_empty:
  "(exportToCsv rt hs rs fs sd ed = None) = (filteredAnalysisResults rt rs fs sd ed = [])"
  by (simp add: exportToCsv_def Let_def)

theorem export_empty_witness:
  "filteredAnalysisResults rt0 [[''region'' \<mapsto> Str ''EU'']] [(''region'', ''US'')] None None = []
   \<and> exportToCsv rt0 [''region''] [[''region'' \<mapsto> Str ''EU'']] [(''region'', ''US'')] None None
       = None"
proof -
  have e: "filteredAnalysisResults rt0 [[''region'' \<mapsto> Str ''EU'']] [(''region'', ''US'')] None None
           = []"
    by (simp add: filteredAnalysisResults_def uniq_def getProp_def)
  show ?thesis
    using export_empty [of rt0 "[''region'']" "[[''region'' \<mapsto> Str ''EU'']]"
        "[(''region'', ''US'')]" None None] e
    by simp
qed

section \<open>Properties of the counts\<close>

lemma countUp_keys: "fst ` set (countUp c k) = insert k (fst ` set c)"
  by (induction c k rule: countUp.induct) auto

lemma countUp_key_in: "(a, b) \<in> set (countUp c k) \<Longrightarrow> a = k \<or> a \<in> fst ` set c"
  using countUp_keys [of c k] by force

lemma countUp_distinct: "distinct (map fst c) \<Longrightarrow> distinct (map fst (countUp c k))"
  by (induction c k rule: countUp.induct) (auto dest: countUp_key_in)

lemma countUp_map_of:
  "map_of (countUp c k) v =
     (if v = k then Some (case map_of c k of None \<Rightarrow> 1 | Some n \<Rightarrow> n + 1) else map_of c v)"
  by (induction c k rule: countUp.induct) auto

lemma foldl_countUp_distinct:
  "distinct (map fst c) \<Longrightarrow> distinct (map fst (foldl countUp c ks))"
  by (induction ks arbitrary: c) (auto simp: countUp_distinct)

lemma foldl_countUp_map_of:
  "map_of (foldl countUp c ks) v =
     (case map_of c v of
        None \<Rightarrow> if count_list ks v = 0 then None else Some (count_list ks v)
      | Some m \<Rightarrow> Some (m + count_list ks v))"
  by (induction ks arbitrary: c) (auto simp: countUp_map_of split: option.splits)

lemma foldl_foldl_concat:
  "foldl (\<lambda>acc r. foldl f acc (g r)) acc rs = foldl f acc (concat (map g rs))"
  by (induction rs arbitrary: acc) auto

lemma insort_keys_distinct:
  "distinct (map fst (insort_key f x xs)) = distinct (map fst (x # xs))"
  by (induction xs) (auto simp: set_insort_key)

lemma sort_keys_distinct: "distinct (map fst (sort_key f xs)) = distinct (map fst xs)"
  by (induction xs) (auto simp: insort_keys_distinct)

lemma objectEntries_set: "set (objectEntries ob) = set ob"
  by (auto simp: objectEntries_def)

lemma objectEntries_distinct:
  assumes "distinct (map fst ob)" shows "distinct (map fst (objectEntries ob))"
proof -
  have "distinct (map fst (filter (\<lambda>e. arrayIndex (fst e) \<noteq> None) ob))"
    and "distinct (map fst (filter (\<lambda>e. arrayIndex (fst e) = None) ob))"
    using assms by (simp_all add: distinct_map_filter)
  then show ?thesis
    by (auto simp: objectEntries_def sort_keys_distinct)
qed

lemma map_of_same_set:
  assumes "distinct (map fst xs)" and "distinct (map fst ys)" and "set xs = set ys"
  shows "map_of xs = map_of ys"
  using assms by (simp add: map_of_inject_set)

lemma countsOf_distinct: "distinct (map fst (countsOf fld rs))"
  by (simp add: countsOf_def foldl_countUp_distinct)

lemma countsOf_map_of:
  "map_of (countsOf fld rs) v
     = (if occurrences fld rs v = 0 then None else Some (occurrences fld rs v))"
  by (simp add: countsOf_def occurrences_def contributions_def foldl_countUp_map_of)

text \<open>On plain values the counts object holds numbers and is the counting \<open>countUp\<close>.\<close>

lemma bump_other:
  "k' \<noteq> k \<Longrightarrow> bump pt ((k', c) # L) k = (k', c) # bump pt L k"
  by (auto simp: bump_def split: option.splits cval.splits)

lemma bump_plain:
  "plainValue k \<Longrightarrow> bump pt (map (apsnd CNum) c) k = map (apsnd CNum) (countUp c k)"
proof (induction c)
  case Nil
  then show ?case by (simp add: bump_def plainValue_def)
next
  case (Cons e c)
  obtain k' n where e: "e = (k', n)" by (cases e)
  show ?case
  proof (cases "k' = k")
    case True
    then show ?thesis by (simp add: e bump_def)
  next
    case False
    then show ?thesis using Cons by (simp add: e bump_other)
  qed
qed

lemma foldl_bump_plain:
  "list_all plainValue ks \<Longrightarrow>
     foldl (bump pt) (map (apsnd CNum) c) ks = map (apsnd CNum) (foldl countUp c ks)"
  by (induction ks arbitrary: c) (auto simp: bump_plain)

lemma insort_key_lift:
  "insort_key (\<lambda>e. g (fst e)) (apsnd h x) (map (apsnd h) xs)
     = map (apsnd h) (insort_key (\<lambda>e. g (fst e)) x xs)"
  by (induction xs) auto

lemma sort_key_lift:
  "sort_key (\<lambda>e. g (fst e)) (map (apsnd h) xs) = map (apsnd h) (sort_key (\<lambda>e. g (fst e)) xs)"
  by (induction xs) (auto simp: insort_key_lift)

lemma objectEntries_lift:
  "objectEntries (map (apsnd h) ob) = map (apsnd h) (objectEntries ob)"
proof -
  have f: "filter (\<lambda>e. P (fst e)) (map (apsnd h) ob) = map (apsnd h) (filter (\<lambda>e. P (fst e)) ob)"
    for P :: "string \<Rightarrow> bool"
    by (induction ob) auto
  show ?thesis
    unfolding objectEntries_def
    using f [of "\<lambda>k. arrayIndex k \<noteq> None"] f [of "\<lambda>k. arrayIndex k = None"]
      sort_key_lift [of "\<lambda>k. case arrayIndex k of None \<Rightarrow> 0 | Some i \<Rightarrow> i" h]
    by simp
qed

lemma insertBy_lift:
  "insertBy (compareCounts rt) (apsnd CNum x) (map (apsnd CNum) ys)
     = map (apsnd CNum) (insort_key (\<lambda>e. - int (snd e)) x ys)"
  by (induction ys) (auto simp: compareCounts_def)

lemma sortBy_lift:
  "sortBy (compareCounts rt) (map (apsnd CNum) xs) = map (apsnd CNum) (sortByCountDesc xs)"
  by (induction xs) (auto simp: sortBy_def sortByCountDesc_def insertBy_lift)

lemma getCounts_plain:
  assumes "list_all plainValue (contributions fld rs)"
  shows "getCounts rt pt rs fld None
           = map (apsnd CNum) (sortByCountDesc (objectEntries (countsOf fld rs)))"
proof -
  have "foldl (\<lambda>counts r. foldl (bump pt) counts (fieldValues fld (getProp r ''analysis''))) [] rs
        = foldl (bump pt) (map (apsnd CNum) []) (contributions fld rs)"
    by (simp add: foldl_foldl_concat contributions_def)
  also have "\<dots> = map (apsnd CNum) (countsOf fld rs)"
    unfolding countsOf_def by (rule foldl_bump_plain [OF assms])
  finally show ?thesis
    by (simp add: getCounts_def objectEntries_lift sortBy_lift)
qed

lemma sorted_counts_distinct:
  "distinct (map fst (sortByCountDesc (objectEntries (countsOf fld rs))))"
  by (simp add: sortByCountDesc_def sort_keys_distinct objectEntries_distinct countsOf_distinct)

lemma sorted_counts_map_of:
  "map_of (sortByCountDesc (objectEntries (countsOf fld rs))) v
     = (if occurrences fld rs v = 0 then None else Some (occurrences fld rs v))"
proof -
  have "set (sortByCountDesc (objectEntries (countsOf fld rs))) = set (countsOf fld rs)"
    by (simp add: sortByCountDesc_def objectEntries_set)
  then have "map_of (sortByCountDesc (objectEntries (countsOf fld rs))) = map_of (countsOf fld rs)"
    using sorted_counts_distinct countsOf_distinct by (intro map_of_same_set)
  then show ?thesis by (simp add: countsOf_map_of)
qed

lemma map_of_apsnd: "map_of (map (apsnd f) xs) k = map_option f (map_of xs k)"
  by (induction xs) auto

lemma sorted_counts_sorted:
  "sorted_wrt (\<lambda>a b. snd b \<le> snd a) (sortByCountDesc xs)"
proof -
  have "sorted (map (\<lambda>e. - int (snd e)) (sortByCountDesc xs))"
    by (simp add: sortByCountDesc_def)
  then show ?thesis by (simp add: sorted_map)
qed

text \<open>
  What \<open>getCounts\<close> gives when every contributed value is plain: the entries of the counts
  object in the order of \<open>Object.entries\<close>, stably sorted by descending count; one entry per
  value, with the number of its occurrences; with a \<open>topN\<close> of at least 1, the first \<open>topN\<close>
  of them reversed. Ties keep the order of \<open>Object.entries\<close>: array-index keys first in
  ascending order, then the other keys as first seen.
\<close>

lemma getCounts_properties:
  assumes "list_all plainValue (contributions fld rs)"
  shows "getCounts rt pt rs fld None
           = map (apsnd CNum) (sortByCountDesc (objectEntries (countsOf fld rs)))"
    and "sorted_wrt (\<lambda>a b. snd b \<le> snd a) (sortByCountDesc (objectEntries (countsOf fld rs)))"
    and "distinct (map fst (getCounts rt pt rs fld None))"
    and "map_of (getCounts rt pt rs fld None) v
           = (if occurrences fld rs v = 0 then None else Some (CNum (occurrences fld rs v)))"
    and "getCounts rt pt rs fld (Some (Suc n)) = rev (take (Suc n) (getCounts rt pt rs fld None))"
proof -
  show 1: "getCounts rt pt rs fld None
           = map (apsnd CNum) (sortByCountDesc (objectEntries (countsOf fld rs)))"
    by (rule getCounts_plain [OF assms])
  show "sorted_wrt (\<lambda>a b. snd b \<le> snd a) (sortByCountDesc (objectEntries (countsOf fld rs)))"
    by (rule sorted_counts_sorted)
  show "distinct (map fst (getCounts rt pt rs fld None))"
    unfolding 1 using sorted_counts_distinct [of fld rs] by (simp add: comp_def)
  show "map_of (getCounts rt pt rs fld None) v
           = (if occurrences fld rs v = 0 then None else Some (CNum (occurrences fld rs v)))"
    unfolding 1 map_of_apsnd sorted_counts_map_of by simp
  show "getCounts rt pt rs fld (Some (Suc n)) = rev (take (Suc n) (getCounts rt pt rs fld None))"
    by (simp add: getCounts_def)
qed

lemma getCounts_example:
  "getCounts rt pt [withTopics [''A'', ''X''], withTopics [''A'', ''Y''], withTopics [''B'']]
     Topics None
     = [(''A'', CNum 2), (''X'', CNum 1), (''Y'', CNum 1), (''B'', CNum 1)]"
  by (simp add: getCounts_def withTopics_def getProp_def fieldValues_def emptyAnalysis_def
      objectEntries_def arrayIndex_def is_digit_def sortBy_def compareCounts_def bump_def
      prototypeFunctions_def)

lemma getCounts_index_keys_first:
  "getCounts rt pt [withTopics [''b'', ''2'']] Topics None = [(''2'', CNum 1), (''b'', CNum 1)]"
  by (simp add: getCounts_def withTopics_def getProp_def fieldValues_def emptyAnalysis_def
      objectEntries_def arrayIndex_def is_digit_def sortBy_def compareCounts_def bump_def
      prototypeFunctions_def parseInt_def)


end
